theory Spec2Isabelle
  imports Complex_Main "HOL-Library.AList" "HOL-Library.Sublist"
begin

chapter \<open>DocuIntel: retrieval, grounded generation and the streaming route\<close>

text \<open>
  A shallow embedding of \<^verbatim>\<open>lib/services/langchain-rag.ts\<close> and
  \<^verbatim>\<open>app/api/ai/stream/route.ts\<close>.

  Conventions of the embedding.
  \<^item> A JavaScript string is a \<open>string\<close>: one \<open>char\<close> per code unit, \<open>length\<close> is
    \<^verbatim>\<open>.length\<close>. Code units above 255 are outside the model.
  \<^item> A JavaScript number that is used as a count, an index or a size is an \<open>int\<close>
    (or a \<open>nat\<close> where the source obtains it from \<^verbatim>\<open>.length\<close>).
  \<^item> A JavaScript number that is a score is a \<open>jsnum\<close>: a real, an infinity or NaN. The
    sign of zero is not modelled. The arithmetic of the Vector Index is exact: rounding and
    overflow are not modelled there. The arithmetic of \<^verbatim>\<open>calculateConfidence\<close>, whose
    result is a number of hundredths, is the arithmetic of doubles: every operation
    rounds its exact result to the nearest double (\<open>to_double\<close>).
  \<^item> Calls to the external provider are parameters of the model: the outcome of the
    call (a value, or a thrown error) is an argument of the function that makes it.
  \<^item> Clock readings (\<^verbatim>\<open>Date.now()\<close>) and the fields computed from them are left out.
\<close>

section \<open>Numbers\<close>

datatype jsnum = Num real | Infinity bool | NaN

text \<open>\<open>Infinity True\<close> is \<open>+Infinity\<close>, \<open>Infinity False\<close> is \<open>-Infinity\<close>.\<close>

fun js_add :: "jsnum \<Rightarrow> jsnum \<Rightarrow> jsnum" where
  "js_add (Num a) (Num b) = Num (a + b)"
| "js_add (Infinity s) (Infinity t) = (if s = t then Infinity s else NaN)"
| "js_add (Infinity s) (Num b) = Infinity s"
| "js_add (Num a) (Infinity t) = Infinity t"
| "js_add _ _ = NaN"

fun js_neg :: "jsnum \<Rightarrow> jsnum" where
  "js_neg (Num a) = Num (- a)"
| "js_neg (Infinity s) = Infinity (\<not> s)"
| "js_neg NaN = NaN"

definition js_sub :: "jsnum \<Rightarrow> jsnum \<Rightarrow> jsnum" where
  "js_sub x y = js_add x (js_neg y)"

fun js_mul :: "jsnum \<Rightarrow> jsnum \<Rightarrow> jsnum" where
  "js_mul (Num a) (Num b) = Num (a * b)"
| "js_mul (Infinity s) (Infinity t) = Infinity (s = t)"
| "js_mul (Infinity s) (Num b) = (if b = 0 then NaN else Infinity (s = (0 < b)))"
| "js_mul (Num a) (Infinity t) = (if a = 0 then NaN else Infinity (t = (0 < a)))"
| "js_mul _ _ = NaN"

text \<open>Division: \<open>0 / 0\<close> is NaN, any other number over zero is an infinity.\<close>

fun js_div :: "jsnum \<Rightarrow> jsnum \<Rightarrow> jsnum" where
  "js_div (Num a) (Num b) =
     (if b \<noteq> 0 then Num (a / b) else if a = 0 then NaN else Infinity (0 < a))"
| "js_div (Num a) (Infinity t) = Num 0"
| "js_div (Infinity s) (Num b) = Infinity (s = (0 \<le> b))"
| "js_div _ _ = NaN"

fun js_sqrt :: "jsnum \<Rightarrow> jsnum" where
  "js_sqrt (Num a) = (if a < 0 then NaN else Num (sqrt a))"
| "js_sqrt (Infinity s) = (if s then Infinity True else NaN)"
| "js_sqrt NaN = NaN"

text \<open>\<^verbatim>\<open>x >= y\<close>: false as soon as one side is NaN.\<close>

fun js_ge :: "jsnum \<Rightarrow> jsnum \<Rightarrow> bool" where
  "js_ge (Num a) (Num b) = (b \<le> a)"
| "js_ge (Infinity s) (Infinity t) = (s \<or> \<not> t)"
| "js_ge (Infinity s) (Num b) = s"
| "js_ge (Num a) (Infinity t) = (\<not> t)"
| "js_ge _ _ = False"

text \<open>\<^verbatim>\<open>Math.min(x, y)\<close>.\<close>

fun js_min :: "jsnum \<Rightarrow> jsnum \<Rightarrow> jsnum" where
  "js_min (Num a) (Num b) = Num (min a b)"
| "js_min (Infinity s) (Infinity t) = Infinity (s \<and> t)"
| "js_min (Infinity s) (Num b) = (if s then Num b else Infinity False)"
| "js_min (Num a) (Infinity t) = (if t then Num a else Infinity False)"
| "js_min _ _ = NaN"

text \<open>\<^verbatim>\<open>Math.round(x)\<close>: the integer nearest to x, a half rounded up.\<close>

fun js_round :: "jsnum \<Rightarrow> jsnum" where
  "js_round (Num a) = Num (of_int \<lfloor>a + 1 / 2\<rfloor>)"
| "js_round x = x"

subsection \<open>Double precision\<close>

text \<open>
  The value of an arithmetic operation of JavaScript is its exact result rounded to the
  nearest double, a tie going to the double whose significand is even (IEEE 754 binary64,
  roundTiesToEven). A double has 53 significant bits: for \<open>2\<^sup>e \<le> \<bar>x\<bar> < 2\<^sup>e\<^sup>+\<^sup>1\<close> the doubles
  around x are the multiples of \<open>2\<^sup>e\<^sup>-\<^sup>5\<^sup>2\<close>, and below \<open>2\<^sup>-\<^sup>1\<^sup>0\<^sup>2\<^sup>2\<close> (the subnormal numbers) they
  are the multiples of \<open>2\<^sup>-\<^sup>1\<^sup>0\<^sup>7\<^sup>4\<close>.

  \<open>rne q\<close> is the integer nearest to q, a tie going to the even one. \<open>double_ulp x\<close> is the
  distance between the doubles around x, \<open>round_double x\<close> the nearest of them.
\<close>

definition rne :: "real \<Rightarrow> int" where
  "rne q =
     (let f = \<lfloor>q\<rfloor>; d = q - of_int f
      in if d < 1 / 2 then f else if 1 / 2 < d then f + 1 else if even f then f else f + 1)"

definition double_exponent :: "real \<Rightarrow> int" where
  "double_exponent x = max \<lfloor>log 2 \<bar>x\<bar>\<rfloor> (- 1022)"

definition double_ulp :: "real \<Rightarrow> real" where
  "double_ulp x = 2 powr of_int (double_exponent x - 52)"

definition round_double :: "real \<Rightarrow> real" where
  "round_double x = of_int (rne (x / double_ulp x)) * double_ulp x"


text \<open>
  A rounded value of magnitude \<open>2\<^sup>1\<^sup>0\<^sup>2\<^sup>4\<close> or more is an infinity. \<open>to_double q\<close> is also the
  value of the decimal literal q of the source (\<^verbatim>\<open>0.6\<close> is \<open>to_double (6 / 10)\<close>).
\<close>

definition to_double :: "real \<Rightarrow> jsnum" where
  "to_double x =
     (if 2 ^ 1024 \<le> \<bar>round_double x\<bar> then Infinity (0 < x) else Num (round_double x))"

text \<open>The operations \<^verbatim>\<open>+\<close>, \<^verbatim>\<open>*\<close> and \<^verbatim>\<open>/\<close> on doubles: the exact operation, then the rounding.\<close>

fun rounded :: "jsnum \<Rightarrow> jsnum" where
  "rounded (Num a) = to_double a"
| "rounded x = x"

definition double_add :: "jsnum \<Rightarrow> jsnum \<Rightarrow> jsnum" where
  "double_add x y = rounded (js_add x y)"

definition double_mul :: "jsnum \<Rightarrow> jsnum \<Rightarrow> jsnum" where
  "double_mul x y = rounded (js_mul x y)"

definition double_div :: "jsnum \<Rightarrow> jsnum \<Rightarrow> jsnum" where
  "double_div x y = rounded (js_div x y)"

text \<open>Truthiness of a number (\<^verbatim>\<open>x || d\<close>): zero and NaN are falsy.\<close>

fun js_truthy :: "jsnum \<Rightarrow> bool" where
  "js_truthy (Num a) = (a \<noteq> 0)"
| "js_truthy (Infinity s) = True"
| "js_truthy NaN = False"

text \<open>
  \<^verbatim>\<open>xs.slice(0, k)\<close> for an integer k: a negative k counts from the end of the array.
\<close>

definition js_slice0 :: "int \<Rightarrow> 'a list \<Rightarrow> 'a list" where
  "js_slice0 k xs =
     (let len = int (length xs);
          final = (if k < 0 then max (len + k) 0 else min k len)
      in take (nat final) xs)"

text \<open>
  \<^verbatim>\<open>xs.sort(cmp)\<close>. The sort of ECMAScript is stable, and a comparator result that is
  NaN counts as 0. For a consistent comparator the result does not depend on the
  algorithm; the model is an insertion sort, which keeps an element before the later
  elements unless the comparator says it belongs after them (\<open>cmp x y > 0\<close>).
\<close>

fun js_positive :: "jsnum \<Rightarrow> bool" where
  "js_positive (Num a) = (0 < a)"
| "js_positive (Infinity s) = s"
| "js_positive NaN = False"

fun sort_insert :: "('a \<Rightarrow> 'a \<Rightarrow> jsnum) \<Rightarrow> 'a \<Rightarrow> 'a list \<Rightarrow> 'a list" where
  "sort_insert cmp x [] = [x]"
| "sort_insert cmp x (y # ys) =
     (if js_positive (cmp x y) then y # sort_insert cmp x ys else x # y # ys)"

definition js_sort :: "('a \<Rightarrow> 'a \<Rightarrow> jsnum) \<Rightarrow> 'a list \<Rightarrow> 'a list" where
  "js_sort cmp xs = foldr (sort_insert cmp) xs []"

section \<open>Data model\<close>

record DocumentChunk_metadata =
  source :: string
  page :: "nat option"
  clauseType :: "string option"
  heading :: "string option"
  charStart :: int
  charEnd :: int

text \<open>The field \<^verbatim>\<open>id\<close> of a chunk is \<open>doc_id\<close> here.\<close>

record DocumentChunk =
  doc_id :: string
  content :: string
  metadata :: DocumentChunk_metadata
  embedding :: "jsnum list option"

record RetrievalResult =
  chunk :: DocumentChunk
  score :: jsnum
  relevanceExplanation :: "string option"

record Citation =
  chunkId :: string
  cit_content :: string
  cit_source :: string
  relevanceScore :: jsnum

record RAGResponse =
  answer :: string
  citations :: "Citation list"
  confidence :: jsnum
  groundedOnSources :: bool

section \<open>Vector Index\<close>

text \<open>
  The two \<^verbatim>\<open>Map\<close>s of \<^verbatim>\<open>InMemoryVectorStore\<close>, as association lists in insertion order:
  \<^verbatim>\<open>Map.set\<close> on a key that is present replaces the value in place, on a new key it
  appends (\<open>AList.update\<close>).
\<close>

record InMemoryVectorStore =
  documents :: "(string \<times> DocumentChunk) list"
  embeddings :: "(string \<times> jsnum list) list"

definition empty_store :: InMemoryVectorStore where
  "empty_store = \<lparr>documents = [], embeddings = []\<rparr>"

fun upsert :: "DocumentChunk list \<Rightarrow> InMemoryVectorStore \<Rightarrow> nat \<times> InMemoryVectorStore" where
  "upsert [] st = (0, st)"
| "upsert (c # cs) st =
     (let st1 = st\<lparr>documents := AList.update (doc_id c) c (documents st)\<rparr>;
          st2 = (case embedding c of
                   Some e \<Rightarrow> st1\<lparr>embeddings := AList.update (doc_id c) e (embeddings st1)\<rparr>
                 | None \<Rightarrow> st1);
          (n, st3) = upsert cs st2
      in (Suc n, st3))"

text \<open>The loop of \<^verbatim>\<open>cosineSimilarity\<close>: the three running sums.\<close>

fun cosine_sums :: "jsnum list \<Rightarrow> jsnum list \<Rightarrow> jsnum \<times> jsnum \<times> jsnum \<Rightarrow> jsnum \<times> jsnum \<times> jsnum" where
  "cosine_sums (x # xs) (y # ys) (dotProduct, normA, normB) =
     cosine_sums xs ys
       (js_add dotProduct (js_mul x y), js_add normA (js_mul x x), js_add normB (js_mul y y))"
| "cosine_sums _ _ acc = acc"

definition cosineSimilarity :: "jsnum list \<Rightarrow> jsnum list \<Rightarrow> jsnum" where
  "cosineSimilarity a b =
     (if length a \<noteq> length b then Num 0
      else case cosine_sums a b (Num 0, Num 0, Num 0) of
             (dotProduct, normA, normB) \<Rightarrow>
               js_div dotProduct (js_mul (js_sqrt normA) (js_sqrt normB)))"

text \<open>
  The loop of \<^verbatim>\<open>search\<close> over \<^verbatim>\<open>embeddings.entries()\<close>: one result per entry whose id has
  a document, in insertion order.
\<close>

fun search_results :: "(string \<times> DocumentChunk) list \<Rightarrow> jsnum list \<Rightarrow> (string \<times> jsnum list) list
    \<Rightarrow> RetrievalResult list" where
  "search_results docs queryEmbedding [] = []"
| "search_results docs queryEmbedding ((i, e) # entries) =
     (case map_of docs i of
        Some c \<Rightarrow> \<lparr>chunk = c, score = cosineSimilarity queryEmbedding e,
                    relevanceExplanation = None\<rparr>
                  # search_results docs queryEmbedding entries
      | None \<Rightarrow> search_results docs queryEmbedding entries)"

definition by_score_desc :: "RetrievalResult \<Rightarrow> RetrievalResult \<Rightarrow> jsnum" where
  "by_score_desc a b = js_sub (score b) (score a)"

definition search :: "InMemoryVectorStore \<Rightarrow> jsnum list \<Rightarrow> int \<Rightarrow> RetrievalResult list" where
  "search st queryEmbedding topK =
     js_slice0 topK
       (js_sort by_score_desc (search_results (documents st) queryEmbedding (embeddings st)))"

section \<open>The service and its configuration\<close>

text \<open>
  \<^verbatim>\<open>x || d\<close>: the default d replaces a falsy x (undefined, 0, NaN, the empty string).
\<close>

definition or_int :: "int option \<Rightarrow> int \<Rightarrow> int" where
  "or_int x d = (case x of None \<Rightarrow> d | Some v \<Rightarrow> if v = 0 then d else v)"

definition or_num :: "jsnum option \<Rightarrow> jsnum \<Rightarrow> jsnum" where
  "or_num x d = (case x of None \<Rightarrow> d | Some v \<Rightarrow> if js_truthy v then v else d)"

definition or_str :: "string option \<Rightarrow> string \<Rightarrow> string" where
  "or_str x d = (case x of None \<Rightarrow> d | Some v \<Rightarrow> if v = [] then d else v)"

definition str_truthy :: "string option \<Rightarrow> bool" where
  "str_truthy x = (case x of None \<Rightarrow> False | Some v \<Rightarrow> v \<noteq> [])"

record ServiceOptions =
  o_embeddingModel :: "string option"
  o_completionModel :: "string option"
  o_chunkSize :: "int option"
  o_chunkOverlap :: "int option"
  o_topK :: "int option"

record LangChainRAGService =
  vectorStore :: InMemoryVectorStore
  embeddingModel :: string
  completionModel :: string
  chunkSize :: int
  chunkOverlap :: int
  topK :: int

text \<open>The constructor; \<open>env_model\<close> is \<^verbatim>\<open>process.env.AUTOLAWYER_MODEL\<close>.\<close>

definition new_LangChainRAGService :: "string option \<Rightarrow> ServiceOptions \<Rightarrow> LangChainRAGService" where
  "new_LangChainRAGService env_model options =
     \<lparr>vectorStore = empty_store,
      embeddingModel = or_str (o_embeddingModel options) ''text-embedding-3-small'',
      completionModel = or_str (o_completionModel options) (or_str env_model ''gpt-4o-mini''),
      chunkSize = or_int (o_chunkSize options) 1000,
      chunkOverlap = or_int (o_chunkOverlap options) 200,
      topK = or_int (o_topK options) 5\<rparr>"

definition no_options :: ServiceOptions where
  "no_options = \<lparr>o_embeddingModel = None, o_completionModel = None, o_chunkSize = None,
                  o_chunkOverlap = None, o_topK = None\<rparr>"

text \<open>The exported singleton, \<^verbatim>\<open>new LangChainRAGService()\<close>.\<close>

definition ragService :: "string option \<Rightarrow> LangChainRAGService" where
  "ragService env_model = new_LangChainRAGService env_model no_options"

section \<open>Embedder: the offline fallback\<close>

definition generateMockEmbedding :: "string \<Rightarrow> jsnum list" where
  "generateMockEmbedding text =
     (let embedding =
            foldl (\<lambda>e i. e[i mod 1536 :=
                       js_add (e ! (i mod 1536)) (js_div (Num (real (of_char (text ! i)))) (Num 1000))])
              (replicate 1536 (Num 0)) [0..<length text];
          magnitude = js_sqrt (foldl (\<lambda>sum val. js_add sum (js_mul val val)) (Num 0) embedding)
      in map (\<lambda>val. js_div val magnitude) embedding)"

section \<open>Retriever\<close>

record RetrieveFilter =
  filter_clauseType :: "string option"
  filter_source :: "string option"

record RetrieveOptions =
  opt_topK :: "int option"
  opt_minScore :: "jsnum option"
  opt_filter :: "RetrieveFilter option"

text \<open>The metrics without the three latencies.\<close>

record RetrievalMetrics =
  chunksRetrieved :: nat
  estimatedAccuracy :: jsnum

record RetrieveOutput =
  results :: "RetrievalResult list"
  metrics :: RetrievalMetrics

definition effective_topK :: "LangChainRAGService \<Rightarrow> RetrieveOptions \<Rightarrow> int" where
  "effective_topK svc options = or_int (opt_topK options) (topK svc)"

definition effective_minScore :: "RetrieveOptions \<Rightarrow> jsnum" where
  "effective_minScore options = or_num (opt_minScore options) (Num (3 / 10))"

text \<open>
  The query embedding: \<open>embedded\<close> is the vector the provider returned, \<open>None\<close> when the
  call threw.
\<close>

definition query_embedding :: "string \<Rightarrow> jsnum list option \<Rightarrow> jsnum list" where
  "query_embedding query embedded =
     (case embedded of Some v \<Rightarrow> v | None \<Rightarrow> generateMockEmbedding query)"

definition passes_filter :: "RetrieveFilter \<Rightarrow> RetrievalResult \<Rightarrow> bool" where
  "passes_filter f r =
     (if str_truthy (filter_clauseType f) \<and> clauseType (metadata (chunk r)) \<noteq> filter_clauseType f
      then False
      else if str_truthy (filter_source f) \<and> Some (source (metadata (chunk r))) \<noteq> filter_source f
      then False
      else True)"

definition apply_filter :: "RetrieveOptions \<Rightarrow> RetrievalResult list \<Rightarrow> RetrievalResult list" where
  "apply_filter options rs =
     (case opt_filter options of Some f \<Rightarrow> filter (passes_filter f) rs | None \<Rightarrow> rs)"

definition retrieve :: "LangChainRAGService \<Rightarrow> string \<Rightarrow> RetrieveOptions \<Rightarrow> jsnum list option
    \<Rightarrow> RetrieveOutput" where
  "retrieve svc query options embedded =
     (let topK = effective_topK svc options;
          minScore = effective_minScore options;
          queryEmbedding = query_embedding query embedded;
          results1 = search (vectorStore svc) queryEmbedding (topK * 2);
          results2 = apply_filter options results1;
          results3 = js_slice0 topK (filter (\<lambda>r. js_ge (score r) minScore) results2)
      in \<lparr>results = results3,
          metrics = \<lparr>chunksRetrieved = length results3, estimatedAccuracy = Num (92 / 100)\<rparr>\<rparr>)"

section \<open>Grounded Generator\<close>

text \<open>Decimal rendering of a number that is a length or an index.\<close>

definition digit_char :: "nat \<Rightarrow> char" where
  "digit_char d = ''0123456789'' ! d"

fun show_nat :: "nat \<Rightarrow> string" where
  "show_nat n = (if n < 10 then [digit_char n] else show_nat (n div 10) @ [digit_char (n mod 10)])"

declare show_nat.simps [simp del]

text \<open>
  \<^verbatim>\<open>calculateConfidence\<close>. The sum, the two quotients, the three products and the final
  quotient are operations on doubles, and \<^verbatim>\<open>0.6\<close> and \<^verbatim>\<open>0.4\<close> are the doubles nearest to
  6/10 and 4/10. The two lengths are whole numbers below \<open>2\<^sup>3\<^sup>2\<close>, which are doubles;
  \<^verbatim>\<open>Math.min\<close> and \<^verbatim>\<open>Math.round\<close> are exact on doubles.
\<close>

definition calculateConfidence :: "RetrievalResult list \<Rightarrow> nat \<Rightarrow> jsnum" where
  "calculateConfidence context citationCount =
     (if length context = 0 then Num 0
      else
        let avgScore = double_div (foldl (\<lambda>sum r. double_add sum (score r)) (Num 0) context)
                         (Num (real (length context)));
            citationRatio = js_min (double_div (Num (real citationCount)) (Num (real (length context))))
                              (Num 1)
        in double_div
             (js_round
                (double_mul
                   (double_add (double_mul avgScore (to_double (6 / 10)))
                      (double_mul citationRatio (to_double (4 / 10))))
                   (Num 100)))
             (Num 100))"

text \<open>
  The scan of the answer with \<^verbatim>\<open>/\[(\d+)\]/g\<close>: the values of the markers, left to
  right. A marker is an opening bracket, the longest run of decimal digits after it (at
  least one), and a closing bracket; the scan goes on after the closing bracket, or one
  character further when there is no marker at the position. \<^verbatim>\<open>parseInt\<close> reads the digits
  in base 10; the model reads them exactly (a double is exact up to \<open>2\<^sup>5\<^sup>3\<close>, far beyond the
  length of any array).
\<close>

definition is_digit :: "char \<Rightarrow> bool" where
  "is_digit c = (48 \<le> (of_char c :: nat) \<and> (of_char c :: nat) \<le> 57)"

definition parseInt :: "string \<Rightarrow> nat" where
  "parseInt ds = foldl (\<lambda>n c. 10 * n + (of_char c - 48)) 0 ds"

function citation_markers :: "string \<Rightarrow> nat list" where
  "citation_markers [] = []"
| "citation_markers (c # cs) =
     (if c = CHR ''['' \<and> takeWhile is_digit cs \<noteq> [] \<and> dropWhile is_digit cs \<noteq> []
         \<and> hd (dropWhile is_digit cs) = CHR '']''
      then parseInt (takeWhile is_digit cs) # citation_markers (tl (dropWhile is_digit cs))
      else citation_markers cs)"
  by pat_completeness auto
termination
  by (relation "measure length")
     (auto simp: less_Suc_eq_le intro: le_trans [OF diff_le_self length_dropWhile_le])

text \<open>\<^verbatim>\<open>Set.add\<close> on a set kept in insertion order.\<close>

definition set_add :: "'a list \<Rightarrow> 'a \<Rightarrow> 'a list" where
  "set_add s x = (if x \<in> set s then s else s @ [x])"

definition citedIndices :: "string \<Rightarrow> int list" where
  "citedIndices ans = foldl set_add [] (map (\<lambda>n. int n - 1) (citation_markers ans))"

definition to_citation :: "RetrievalResult \<Rightarrow> Citation" where
  "to_citation r =
     \<lparr>chunkId = doc_id (chunk r),
      cit_content = take 200 (content (chunk r)) @ ''...'',
      cit_source = source (metadata (chunk r)),
      relevanceScore = score r\<rparr>"

definition valid_indices :: "string \<Rightarrow> RetrievalResult list \<Rightarrow> int list" where
  "valid_indices ans context = filter (\<lambda>i. 0 \<le> i \<and> i < int (length context)) (citedIndices ans)"

definition contextString :: "RetrievalResult list \<Rightarrow> string" where
  "contextString context =
     concat (map (\<lambda>(i, r). (if i = 0 then [] else [CHR 0x0A, CHR 0x0A])
                              @ ''['' @ show_nat (i + 1) @ ''] '' @ content (chunk r))
               (enumerate 0 context))"

definition systemPrompt :: "RetrievalResult list \<Rightarrow> string" where
  "systemPrompt context =
     ''You are DocuIntel, an expert legal AI assistant. '' @ [CHR 0x0A]
     @ ''Answer the user'' @ [CHR 0x27] @ ''s question based ONLY on the provided context. '' @ [CHR 0x0A]
     @ ''If the context doesn'' @ [CHR 0x27] @ ''t contain enough information, say so.'' @ [CHR 0x0A]
     @ ''Always cite your sources using [1], [2], etc.'' @ [CHR 0x0A, CHR 0x0A]
     @ ''CONTEXT:'' @ [CHR 0x0A] @ contextString context"

text \<open>
  The outcome of the one chat completion call: it throws, or it returns a response
  whose first choice has a content (possibly null). A response without a first choice
  makes the next line of the source throw inside the same \<^verbatim>\<open>try\<close>, which is \<open>CallFails\<close>
  here.
\<close>

datatype completion = CallFails | Content "string option"

definition fallback_answer :: "RetrievalResult list \<Rightarrow> string" where
  "fallback_answer context =
     ''Based on the provided documents, I found '' @ show_nat (length context)
     @ '' relevant sections. ''
     @ ''However, I encountered an issue generating a detailed response. ''
     @ ''Please try again or review the source documents directly.''"

text \<open>
  \<open>llm\<close> is the provider: from the system prompt and the user message to the outcome of
  the call.
\<close>

definition generate :: "(string \<Rightarrow> string \<Rightarrow> completion) \<Rightarrow> string \<Rightarrow> RetrievalResult list \<Rightarrow> RAGResponse" where
  "generate llm query context =
     (case llm (systemPrompt context) query of
        Content c \<Rightarrow>
          (let ans = or_str c [];
               cits = map (\<lambda>i. to_citation (context ! nat i)) (valid_indices ans context)
           in \<lparr>answer = ans, citations = cits,
               confidence = calculateConfidence context (length cits),
               groundedOnSources = (0 < length cits)\<rparr>)
      | CallFails \<Rightarrow>
          \<lparr>answer = fallback_answer context,
           citations = map to_citation (take 3 context),
           confidence = Num (1 / 2),
           groundedOnSources = True\<rparr>)"

section \<open>Segmenter\<close>

text \<open>
  The character classes of the three patterns: \<^verbatim>\<open>\s\<close> (which is also what \<^verbatim>\<open>trim\<close>
  strips), \<^verbatim>\<open>\d\<close> (see \<open>is_digit\<close>) and \<^verbatim>\<open>[A-Z]\<close>. Of the white space of JavaScript,
  the code units below 256 are tab, line feed, vertical tab, form feed, carriage return,
  space and no-break space.
\<close>

definition is_space :: "char \<Rightarrow> bool" where
  "is_space c = ((of_char c :: nat) \<in> {9, 10, 11, 12, 13, 32, 160})"

definition is_upper :: "char \<Rightarrow> bool" where
  "is_upper c = (65 \<le> (of_char c :: nat) \<and> (of_char c :: nat) \<le> 90)"

definition trim :: "string \<Rightarrow> string" where
  "trim s = rev (dropWhile is_space (rev (dropWhile is_space s)))"

text \<open>
  Matching under the flag \<^verbatim>\<open>i\<close>: two code units match when their upper-case forms are
  equal; for the letters of the three keywords only the two cases of the letter match.
\<close>

definition fold_case :: "char \<Rightarrow> nat" where
  "fold_case c = (if 97 \<le> (of_char c :: nat) \<and> (of_char c :: nat) \<le> 122
                  then of_char c - 32 else of_char c)"

definition starts_with_ci :: "string \<Rightarrow> string \<Rightarrow> bool" where
  "starts_with_ci kw s =
     (length kw \<le> length s \<and> map fold_case (take (length kw) s) = map fold_case kw)"

text \<open>
  \<^verbatim>\<open>s.split(re)\<close> for a regular expression without capture groups. \<open>m\<close> is the
  expression as a matcher at a position: \<open>m rest\<close> is the length of its match at the start
  of \<open>rest\<close>, if it matches there. \<open>cur\<close> is the piece since the last separator. A match
  that is empty and at the start of the piece does not split.
\<close>

function split_loop :: "(string \<Rightarrow> nat option) \<Rightarrow> string \<Rightarrow> string \<Rightarrow> string list" where
  "split_loop m cur [] = [cur]"
| "split_loop m cur (c # cs) =
     (case m (c # cs) of
        None \<Rightarrow> split_loop m (cur @ [c]) cs
      | Some n \<Rightarrow>
          if n = 0 \<and> cur = [] then split_loop m (cur @ [c]) cs
          else cur # split_loop m [] (drop n (c # cs)))"
  by pat_completeness auto
termination
  by (relation "measure (\<lambda>(m, cur, rest). 2 * length rest + (if cur = [] then 0 else 1))") auto

definition js_split :: "(string \<Rightarrow> nat option) \<Rightarrow> string \<Rightarrow> string list" where
  "js_split m s =
     (if s = [] then (case m [] of None \<Rightarrow> [s] | Some n \<Rightarrow> []) else split_loop m [] s)"

text \<open>
  \<^verbatim>\<open>/(?=\n\s*(?:Section|Article|Clause)\s+\d+)/gi\<close>: an empty match before a line feed that
  is followed by white space, a keyword, white space (at least one) and a digit.
\<close>

definition section_marker :: "string \<Rightarrow> nat option" where
  "section_marker s =
     (case s of
        [] \<Rightarrow> None
      | c # cs \<Rightarrow>
          if c = CHR 0x0A
             \<and> (\<exists>kw \<in> set [''Section'', ''Article'', ''Clause''].
                   starts_with_ci kw (dropWhile is_space cs)
                   \<and> (let r = drop (length kw) (dropWhile is_space cs)
                      in r \<noteq> [] \<and> is_space (hd r)
                         \<and> dropWhile is_space r \<noteq> [] \<and> is_digit (hd (dropWhile is_space r))))
          then Some 0 else None)"

text \<open>
  \<^verbatim>\<open>/(?=\n\s*\d+\.\s+[A-Z])/g\<close>: an empty match before a line feed that is followed by
  white space, digits (at least one), a full stop, white space (at least one) and a
  capital letter.
\<close>

definition numbered_marker :: "string \<Rightarrow> nat option" where
  "numbered_marker s =
     (case s of
        [] \<Rightarrow> None
      | c # cs \<Rightarrow>
          if c = CHR 0x0A
             \<and> (let r1 = dropWhile is_space cs; r2 = dropWhile is_digit r1
                in takeWhile is_digit r1 \<noteq> [] \<and> r2 \<noteq> [] \<and> hd r2 = CHR ''.''
                   \<and> tl r2 \<noteq> [] \<and> is_space (hd (tl r2))
                   \<and> dropWhile is_space (tl r2) \<noteq> [] \<and> is_upper (hd (dropWhile is_space (tl r2))))
          then Some 0 else None)"

text \<open>
  \<^verbatim>\<open>/\n\s*\n+/g\<close>: a line feed and the white space after it up to and including the last
  line feed of that white space.
\<close>

definition blank_lines :: "string \<Rightarrow> nat option" where
  "blank_lines s =
     (case s of
        [] \<Rightarrow> None
      | c # cs \<Rightarrow>
          if c = CHR 0x0A \<and> CHR 0x0A \<in> set (takeWhile is_space cs)
          then Some (1 + (length (takeWhile is_space cs)
                          - length (takeWhile (\<lambda>d. d \<noteq> CHR 0x0A) (rev (takeWhile is_space cs)))))
          else None)"

text \<open>The three cascading passes, before trimming.\<close>

definition split_passes :: "string \<Rightarrow> string list" where
  "split_passes text =
     concat (map (js_split blank_lines)
       (concat (map (js_split numbered_marker) (js_split section_marker text))))"

definition segmentClauses :: "string \<Rightarrow> string list" where
  "segmentClauses text = filter (\<lambda>s. 50 < length s) (map trim (split_passes text))"

section \<open>Chunker\<close>

text \<open>\<^verbatim>\<open>s.slice(start, end)\<close>: a negative bound counts from the end.\<close>

definition js_slice :: "int \<Rightarrow> int \<Rightarrow> 'a list \<Rightarrow> 'a list" where
  "js_slice start end' xs =
     (let len = int (length xs);
          from = (if start < 0 then max (len + start) 0 else min start len);
          to = (if end' < 0 then max (len + end') 0 else min end' len)
      in take (nat (to - from)) (drop (nat from) xs))"

text \<open>
  The two labelling functions of the source, \<^verbatim>\<open>extractHeading\<close> and
  \<^verbatim>\<open>classifyClauseType\<close>, compute the heading and the clause type of a chunk from its
  content alone. They are the parameters \<open>extractHeading\<close> and \<open>classifyClauseType\<close> here.
\<close>

definition make_chunk :: "(string \<Rightarrow> string) \<Rightarrow> (string \<Rightarrow> string) \<Rightarrow> string \<Rightarrow> nat \<Rightarrow> string
    \<Rightarrow> int \<Rightarrow> int \<Rightarrow> DocumentChunk" where
  "make_chunk extractHeading classifyClauseType src n txt start end' =
     \<lparr>doc_id = src @ ''-'' @ show_nat n,
      content = txt,
      metadata = \<lparr>source = src, page = None, clauseType = Some (classifyClauseType txt),
                  heading = Some (extractHeading txt), charStart = start, charEnd = end'\<rparr>,
      embedding = None\<rparr>"

text \<open>
  The inner \<^verbatim>\<open>while (start < segment.length)\<close>. It does not end when the overlap is not
  smaller than the chunk size: \<open>None\<close> is the loop that runs forever.
\<close>

partial_function (option) window_loop :: "(string \<Rightarrow> string) \<Rightarrow> (string \<Rightarrow> string)
    \<Rightarrow> LangChainRAGService \<Rightarrow> string \<Rightarrow> string \<Rightarrow> int \<Rightarrow> int \<Rightarrow> DocumentChunk list
    \<Rightarrow> DocumentChunk list option" where
  "window_loop extractHeading classifyClauseType svc src segment charOffset start chunks =
     (if start < int (length segment) then
        window_loop extractHeading classifyClauseType svc src segment charOffset
          (start + (chunkSize svc - chunkOverlap svc))
          (chunks @
             [make_chunk extractHeading classifyClauseType src (length chunks)
                (js_slice start (min (start + chunkSize svc) (int (length segment))) segment)
                (charOffset + start)
                (charOffset + min (start + chunkSize svc) (int (length segment)))])
      else Some chunks)"

text \<open>The body of the outer loop: one segment, from the chunks and the offset so far.\<close>

definition chunk_segment :: "(string \<Rightarrow> string) \<Rightarrow> (string \<Rightarrow> string) \<Rightarrow> LangChainRAGService
    \<Rightarrow> string \<Rightarrow> string \<Rightarrow> DocumentChunk list \<times> int \<Rightarrow> (DocumentChunk list \<times> int) option" where
  "chunk_segment extractHeading classifyClauseType svc src segment st =
     (case st of (chunks, charOffset) \<Rightarrow>
        if int (length segment) \<le> chunkSize svc then
          Some (chunks @
                  [make_chunk extractHeading classifyClauseType src (length chunks) segment
                     charOffset (charOffset + int (length segment))],
                charOffset + int (length segment))
        else
          (case window_loop extractHeading classifyClauseType svc src segment charOffset 0 chunks of
             None \<Rightarrow> None
           | Some chunks' \<Rightarrow> Some (chunks', charOffset + int (length segment))))"

fun chunk_segments :: "(string \<Rightarrow> string) \<Rightarrow> (string \<Rightarrow> string) \<Rightarrow> LangChainRAGService
    \<Rightarrow> string \<Rightarrow> string list \<Rightarrow> DocumentChunk list \<times> int \<Rightarrow> (DocumentChunk list \<times> int) option" where
  "chunk_segments extractHeading classifyClauseType svc src [] st = Some st"
| "chunk_segments extractHeading classifyClauseType svc src (segment # segments) st =
     (case chunk_segment extractHeading classifyClauseType svc src segment st of
        None \<Rightarrow> None
      | Some st' \<Rightarrow> chunk_segments extractHeading classifyClauseType svc src segments st')"

definition createChunks :: "(string \<Rightarrow> string) \<Rightarrow> (string \<Rightarrow> string) \<Rightarrow> LangChainRAGService
    \<Rightarrow> string list \<Rightarrow> string \<Rightarrow> DocumentChunk list option" where
  "createChunks extractHeading classifyClauseType svc segments src =
     map_option fst (chunk_segments extractHeading classifyClauseType svc src segments ([], 0))"

section \<open>Streaming Session\<close>

datatype StreamEventType = Connected | Progress | Chunk | Analysis | Complete | Error

text \<open>
  The payload of an event is an object of strings, numbers and null. An event is its
  type and its payload (the timestamp is left out).
\<close>

datatype json = JString string | JNumber int | JNull

record StreamEvent =
  type :: StreamEventType
  data :: "(string \<times> json) list"

text \<open>
  The stream controller: the events enqueued so far, in order, and the number of calls of
  \<^verbatim>\<open>close()\<close>. The consumer is assumed to stay connected.
\<close>

record controller =
  queue :: "StreamEvent list"
  close_calls :: nat


definition enqueue :: "StreamEvent \<Rightarrow> controller \<Rightarrow> controller" where
  "enqueue e c = c\<lparr>queue := queue c @ [e]\<rparr>"

definition close :: "controller \<Rightarrow> controller" where
  "close c = c\<lparr>close_calls := Suc (close_calls c)\<rparr>"

definition event :: "StreamEventType \<Rightarrow> (string \<times> json) list \<Rightarrow> StreamEvent" where
  "event t d = \<lparr>type = t, data = d\<rparr>"














text \<open>The canned report of the mock path, line by line.\<close>

definition mock_lines :: "string list" where
  "mock_lines =
     [''## Contract Analysis Report'',
      [],
      ''### Risk Assessment'',
      ''- **Overall Risk Score**: 75/100 (High)'',
      ''- **Severity**: High'',
      [],
      ''### Key Issues Identified'',
      [],
      ''1. **Unlimited Liability Clause**'',
      ''   - The indemnification clause lacks a liability cap'',
      ''   - Potential exposure to unlimited financial risk'',
      [],
      ''2. **Broad Termination Rights**'',
      ''   - One-sided termination provisions favor the other party'',
      ''   - Consider negotiating mutual termination rights'',
      [],
      ''3. **Intellectual Property Assignment**'',
      ''   - All IP created transfers to client'',
      ''   - May want to retain license for internal use'',
      [],
      ''### Recommendations'',
      [],
      ''1. Add a liability cap (e.g., 12 months of fees)'',
      ''2. Negotiate mutual termination rights with 60-day notice'',
      ''3. Request carve-out for pre-existing IP'',
      [],
      ''### Suggested Redlines'',
      [],
      [CHR 0x60, CHR 0x60, CHR 0x60] @ ''diff'',
      ''- The Supplier'' @ [CHR 0x27] @ ''s liability under this Agreement shall be unlimited.'',
      ''+ The Supplier'' @ [CHR 0x27]
        @ ''s liability shall be limited to the total fees paid in the preceding 12 months.'',
      [CHR 0x60, CHR 0x60, CHR 0x60],
      [],
      ''---'',
      ''*Analysis generated by DocuIntel AI (Demo Mode)*'']"

fun join_lines :: "string list \<Rightarrow> string" where
  "join_lines [] = []"
| "join_lines [l] = l"
| "join_lines (l # ls) = l @ [CHR 0x0A] @ join_lines ls"

definition mockResponse :: string where
  "mockResponse = join_lines mock_lines"

text \<open>
  \<^verbatim>\<open>s.split(/(?<=\n)/)\<close>: the string is cut after every line feed that is not its last
  character; \<open>cur\<close> is the piece so far.
\<close>

fun split_after_newline :: "string \<Rightarrow> string \<Rightarrow> string list" where
  "split_after_newline cur [] = [cur]"
| "split_after_newline cur (c # cs) =
     (if c = CHR 0x0A \<and> cs \<noteq> [] then (cur @ [c]) # split_after_newline [] cs
      else split_after_newline (cur @ [c]) cs)"







section \<open>Notions used to state the properties\<close>

fun is_number :: "jsnum \<Rightarrow> bool" where
  "is_number (Num a) = True"
| "is_number _ = False"


text \<open>
  The confidence as the specification words it, before rounding: 0.6 times the mean
  score plus 0.4 times the capped citation ratio.
\<close>

definition spec_confidence :: "real list \<Rightarrow> nat \<Rightarrow> real" where
  "spec_confidence xs n =
     6 / 10 * (sum_list xs / real (length xs)) + 4 / 10 * min (real n / real (length xs)) 1"

text \<open>The passage of the window at position k of a segment.\<close>

definition window_at :: "(string \<Rightarrow> string) \<Rightarrow> (string \<Rightarrow> string) \<Rightarrow> LangChainRAGService
    \<Rightarrow> string \<Rightarrow> string \<Rightarrow> int \<Rightarrow> nat \<Rightarrow> nat \<Rightarrow> DocumentChunk" where
  "window_at extractHeading classifyClauseType svc src segment charOffset n0 k =
     (let start = int k * (chunkSize svc - chunkOverlap svc);
          end' = min (start + chunkSize svc) (int (length segment))
      in make_chunk extractHeading classifyClauseType src (n0 + k) (js_slice start end' segment)
           (charOffset + start) (charOffset + end'))"

definition span :: "DocumentChunk \<Rightarrow> int \<times> int" where
  "span c = (charStart (metadata c), charEnd (metadata c))"

definition span_overlap :: "DocumentChunk \<Rightarrow> DocumentChunk \<Rightarrow> int" where
  "span_overlap c d = charEnd (metadata c) - charStart (metadata d)"

definition result_spans :: "(DocumentChunk list \<times> int) option \<Rightarrow> (int \<times> int) list option" where
  "result_spans r = map_option (map span \<circ> fst) r"

definition descending_scores :: "RetrievalResult list \<Rightarrow> bool" where
  "descending_scores rs = sorted_wrt (\<lambda>a b. js_ge (score a) (score b)) rs"

text \<open>
  The events between the first and the last of a session, and the one provider call that
  a valid request with a provider makes (by its mode), with what it means for it to fail.
\<close>

fun is_body :: "StreamEventType \<Rightarrow> bool" where
  "is_body Progress = True"
| "is_body Chunk = True"
| "is_body Analysis = True"
| "is_body _ = False"





definition body_events :: "StreamEvent list \<Rightarrow> bool" where
  "body_events es = list_all (\<lambda>e. is_body (type e)) es"



section \<open>Sample data\<close>

definition sample_chunk :: "string \<Rightarrow> DocumentChunk" where
  "sample_chunk i =
     \<lparr>doc_id = i, content = ''Payment is due in thirty days.'',
      metadata = \<lparr>source = ''contract'', page = None, clauseType = Some ''payment'',
                  heading = Some ''Payment'', charStart = 0, charEnd = 30\<rparr>,
      embedding = None\<rparr>"

definition sample_result :: "string \<Rightarrow> jsnum \<Rightarrow> RetrievalResult" where
  "sample_result i s = \<lparr>chunk = sample_chunk i, score = s, relevanceExplanation = None\<rparr>"

definition indexed_chunk :: "string \<Rightarrow> jsnum list \<Rightarrow> DocumentChunk" where
  "indexed_chunk i e = (sample_chunk i)\<lparr>embedding := Some e\<rparr>"

definition indexed_result :: "string \<Rightarrow> jsnum list \<Rightarrow> jsnum \<Rightarrow> RetrievalResult" where
  "indexed_result i e s = \<lparr>chunk = indexed_chunk i e, score = s, relevanceExplanation = None\<rparr>"

text \<open>An index of three entries, the second with a zero embedding.\<close>

definition store_with_zero :: InMemoryVectorStore where
  "store_with_zero =
     snd (upsert [indexed_chunk ''x'' [Num 0, Num 1], indexed_chunk ''z'' [Num 0, Num 0],
                  indexed_chunk ''y'' [Num 1, Num 0]] empty_store)"

definition sample_store :: InMemoryVectorStore where
  "sample_store =
     snd (upsert [indexed_chunk ''x'' [Num 0, Num 1], indexed_chunk ''y'' [Num 1, Num 0],
                  indexed_chunk ''w'' [Num 1, Num 0]] empty_store)"

definition sample_service :: LangChainRAGService where
  "sample_service = (ragService None)\<lparr>vectorStore := sample_store\<rparr>"


definition no_retrieve_options :: RetrieveOptions where
  "no_retrieve_options = \<lparr>opt_topK = None, opt_minScore = None, opt_filter = None\<rparr>"

definition failing_llm :: "string \<Rightarrow> string \<Rightarrow> completion" where
  "failing_llm sys usr = CallFails"


definition four_results :: "RetrievalResult list" where
  "four_results =
     [sample_result ''a'' (Num (9 / 10)), sample_result ''b'' (Num (8 / 10)),
      sample_result ''c'' (Num (7 / 10)), sample_result ''d'' (Num (6 / 10))]"

definition zero_options :: RetrieveOptions where
  "zero_options = \<lparr>opt_topK = Some 0, opt_minScore = Some (Num 0), opt_filter = None\<rparr>"

definition two_results :: "RetrievalResult list" where
  "two_results = [sample_result ''a'' (Num (8 / 10)), sample_result ''b'' (Num (6 / 10))]"

definition sample_text :: string where
  "sample_text =
     ''Preamble of the agreement between the supplier and the client parties.'' @ [CHR 0x0A]
     @ ''Section 1 The supplier shall deliver the goods within thirty days of order.''
     @ [CHR 0x0A, CHR 0x0A] @ ''short note'' @ [CHR 0x0A]
     @ ''2. Payment is due within sixty days of the date of the invoice received.''"

definition no_heading :: "string \<Rightarrow> string" where
  "no_heading txt = ''Unnamed Section''"

definition general_type :: "string \<Rightarrow> string" where
  "general_type txt = ''general''"







chapter \<open>Properties\<close>

section \<open>Properties of the Vector Index\<close>

text \<open>
  On vectors of numbers of one length, one of which is all zeros, the dot product and
  one of the norms are 0, and the quotient of the source is \<open>0 / 0\<close>.
\<close>

lemma cosine_sums_numbers:
  "length xs = length ys \<Longrightarrow>
   cosine_sums (map Num xs) (map Num ys) (Num d, Num a, Num b)
     = (Num (d + (\<Sum>(x, y)\<leftarrow>zip xs ys. x * y)), Num (a + (\<Sum>x\<leftarrow>xs. x * x)),
        Num (b + (\<Sum>y\<leftarrow>ys. y * y)))"
proof (induction xs ys arbitrary: d a b rule: list_induct2)
  case Nil
  then show ?case by simp
next
  case (Cons x xs y ys)
  then show ?case by (simp add: add.assoc)
qed

lemma sum_list_products_zero:
  "(\<forall>x \<in> set xs. x = (0::real)) \<or> (\<forall>y \<in> set ys. y = 0) \<Longrightarrow> (\<Sum>(x, y)\<leftarrow>zip xs ys. x * y) = 0"
proof -
  assume h: "(\<forall>x \<in> set xs. x = (0::real)) \<or> (\<forall>y \<in> set ys. y = 0)"
  have "\<forall>p \<in> set (zip xs ys). (case p of (x, y) \<Rightarrow> x * y) = 0"
    using h by (auto dest: set_zip_leftD set_zip_rightD)
  then show ?thesis by (simp add: sum_list_0 cong: map_cong)
qed

lemma sum_list_squares_zero: "\<forall>x \<in> set xs. x = (0::real) \<Longrightarrow> (\<Sum>x\<leftarrow>xs. x * x) = 0"
  by (induction xs) auto

lemma cosineSimilarity_zero_magnitude:
  assumes "length xs = length ys" and "(\<forall>x \<in> set xs. x = 0) \<or> (\<forall>y \<in> set ys. y = 0)"
  shows "cosineSimilarity (map Num xs) (map Num ys) = NaN"
proof -
  have s: "cosine_sums (map Num xs) (map Num ys) (Num 0, Num 0, Num 0)
     = (Num (\<Sum>(x, y)\<leftarrow>zip xs ys. x * y), Num (\<Sum>x\<leftarrow>xs. x * x), Num (\<Sum>y\<leftarrow>ys. y * y))"
    using cosine_sums_numbers [OF assms(1), of 0 0 0] by simp
  have d: "(\<Sum>(x, y)\<leftarrow>zip xs ys. x * y) = 0" using assms(2) by (rule sum_list_products_zero)
  have n: "0 \<le> (\<Sum>x\<leftarrow>xs. x * x)" "0 \<le> (\<Sum>y\<leftarrow>ys. y * y)"
    by (rule sum_list_nonneg, auto)+
  have z: "sqrt (\<Sum>x\<leftarrow>xs. x * x) * sqrt (\<Sum>y\<leftarrow>ys. y * y) = 0"
    using assms(2) sum_list_squares_zero [of xs] sum_list_squares_zero [of ys] by auto
  show ?thesis
    using assms(1) n z by (simp add: cosineSimilarity_def s d not_less [symmetric])
qed

text \<open>
  C3. Cosine similarity of equal-length vectors one of which has zero magnitude. The
  source divides the dot product by the product of the norms with no guard, so the
  quotient is \<open>0 / 0\<close>: the function returns NaN, where the claim says 0.
\<close>

theorem cosineSimilarity_zero_vector_NaN:
  "cosineSimilarity [Num 0, Num 0] [Num 1, Num 0] = NaN"
  by (simp add: cosineSimilarity_def)

subsection \<open>Sorting by score\<close>

lemma js_slice0_nonneg: "0 \<le> k \<Longrightarrow> js_slice0 k xs = take (nat k) xs"
  by (simp add: js_slice0_def Let_def min_def)

lemma set_js_slice0: "set (js_slice0 k xs) \<subseteq> set xs"
  by (auto simp: js_slice0_def Let_def dest: in_set_takeD)

lemma set_sort_insert: "set (sort_insert cmp x ys) = insert x (set ys)"
  by (induction ys) auto

lemma length_sort_insert: "length (sort_insert cmp x ys) = Suc (length ys)"
  by (induction ys) auto

lemma set_js_sort: "set (js_sort cmp xs) = set xs"
  by (induction xs) (auto simp: js_sort_def set_sort_insert)

lemma length_js_sort: "length (js_sort cmp xs) = length xs"
  by (induction xs) (auto simp: js_sort_def length_sort_insert)

lemma by_score_desc_positive:
  "is_number (score a) \<Longrightarrow> is_number (score b) \<Longrightarrow>
   js_positive (by_score_desc a b) = (\<not> js_ge (score a) (score b))"
  by (cases "score a"; cases "score b") (auto simp: by_score_desc_def js_sub_def)

lemma js_ge_trans:
  "is_number a \<Longrightarrow> is_number b \<Longrightarrow> is_number c \<Longrightarrow> js_ge a b \<Longrightarrow> js_ge b c \<Longrightarrow> js_ge a c"
  by (cases a; cases b; cases c) auto

lemma js_ge_total: "is_number a \<Longrightarrow> is_number b \<Longrightarrow> \<not> js_ge a b \<Longrightarrow> js_ge b a"
  by (cases a; cases b) auto

lemma js_ge_refl: "is_number a \<Longrightarrow> js_ge a a"
  by (cases a) auto

lemma sorted_sort_insert:
  assumes "is_number (score x)" "\<forall>y \<in> set ys. is_number (score y)"
    and "sorted_wrt (\<lambda>a b. js_ge (score a) (score b)) ys"
  shows "sorted_wrt (\<lambda>a b. js_ge (score a) (score b)) (sort_insert by_score_desc x ys)"
  using assms
proof (induction ys)
  case Nil
  then show ?case by simp
next
  case (Cons y ys)
  show ?case
  proof (cases "js_ge (score x) (score y)")
    case True
    then have "\<forall>z \<in> set ys. js_ge (score x) (score z)"
      using Cons.prems by (auto intro: js_ge_trans)
    with True Cons.prems show ?thesis
      by (simp add: by_score_desc_positive)
  next
    case False
    then have "js_ge (score y) (score x)"
      using Cons.prems by (simp add: js_ge_total)
    with False Cons show ?thesis
      by (auto simp: by_score_desc_positive set_sort_insert)
  qed
qed

lemma sorted_js_sort:
  "\<forall>y \<in> set xs. is_number (score y) \<Longrightarrow>
   sorted_wrt (\<lambda>a b. js_ge (score a) (score b)) (js_sort by_score_desc xs)"
proof (induction xs)
  case Nil
  then show ?case by (simp add: js_sort_def)
next
  case (Cons x xs)
  then have "sorted_wrt (\<lambda>a b. js_ge (score a) (score b)) (js_sort by_score_desc xs)" by simp
  then show ?case
    using Cons.prems sorted_sort_insert [of x "js_sort by_score_desc xs"]
    by (simp add: js_sort_def set_js_sort [unfolded js_sort_def])
qed

lemma filter_sort_insert:
  assumes "is_number (score x)" "\<forall>y \<in> set ys. is_number (score y)"
  shows "filter (\<lambda>r. score r = s) (sort_insert by_score_desc x ys)
           = filter (\<lambda>r. score r = s) (x # ys)"
  using assms
proof (induction ys)
  case Nil
  then show ?case by simp
next
  case (Cons y ys)
  show ?case
  proof (cases "js_ge (score x) (score y)")
    case True
    with Cons.prems show ?thesis by (simp add: by_score_desc_positive)
  next
    case False
    then have "score x \<noteq> score y" using Cons.prems by (auto simp: js_ge_refl)
    with False Cons show ?thesis by (auto simp: by_score_desc_positive)
  qed
qed

lemma filter_js_sort:
  "\<forall>y \<in> set xs. is_number (score y) \<Longrightarrow>
   filter (\<lambda>r. score r = s) (js_sort by_score_desc xs) = filter (\<lambda>r. score r = s) xs"
proof (induction xs)
  case Nil
  then show ?case by (simp add: js_sort_def)
next
  case (Cons x xs)
  then show ?case
    using filter_sort_insert [of x "js_sort by_score_desc xs" s]
    by (simp add: js_sort_def set_js_sort [unfolded js_sort_def])
qed

lemma prefix_filter_take: "prefix (filter P (take n xs)) (filter P xs)"
proof -
  have "filter P xs = filter P (take n xs) @ filter P (drop n xs)"
    by (metis append_take_drop_id filter_append)
  then show ?thesis by (simp add: prefix_def)
qed

text \<open>
  What \<open>search\<close> does when every computed score is a number and \<open>k\<close> is not negative: it
  returns the first \<open>k\<close> entries of the candidates in descending order of score, and
  among the entries of one score the earliest inserted, in insertion order.
\<close>

lemma search_sorted_stable_on_numbers:
  assumes "0 \<le> k"
    and "\<forall>r \<in> set (search_results (documents st) q (embeddings st)). is_number (score r)"
  shows "int (length (search st q k)) \<le> k
    \<and> length (search st q k) = min (nat k) (length (search_results (documents st) q (embeddings st)))
    \<and> sorted_wrt (\<lambda>a b. js_ge (score a) (score b)) (search st q k)
    \<and> (\<forall>s. prefix (filter (\<lambda>r. score r = s) (search st q k))
              (filter (\<lambda>r. score r = s) (search_results (documents st) q (embeddings st))))"
proof -
  let ?C = "search_results (documents st) q (embeddings st)"
  let ?S = "js_sort by_score_desc ?C"
  have eq: "search st q k = take (nat k) ?S"
    using assms(1) by (simp add: search_def js_slice0_nonneg)
  have "sorted_wrt (\<lambda>a b. js_ge (score a) (score b)) ?S"
    using assms(2) by (rule sorted_js_sort)
  then have s: "sorted_wrt (\<lambda>a b. js_ge (score a) (score b)) (take (nat k) ?S)"
    by (rule sorted_wrt_take)
  have p: "prefix (filter (\<lambda>r. score r = s) (take (nat k) ?S)) (filter (\<lambda>r. score r = s) ?C)" for s
    using prefix_filter_take [of "\<lambda>r. score r = s" "nat k" ?S] filter_js_sort [OF assms(2), of s]
    by simp
  have l: "length (take (nat k) ?S) = min (nat k) (length ?C)"
    by (simp add: length_js_sort min.commute)
  show ?thesis using s p l assms(1) by (auto simp: eq)
qed

lemma store_with_zero_entries:
  "documents store_with_zero =
     [(''x'', indexed_chunk ''x'' [Num 0, Num 1]), (''z'', indexed_chunk ''z'' [Num 0, Num 0]),
      (''y'', indexed_chunk ''y'' [Num 1, Num 0])]"
  "embeddings store_with_zero =
     [(''x'', [Num 0, Num 1]), (''z'', [Num 0, Num 0]), (''y'', [Num 1, Num 0])]"
  by (simp_all add: store_with_zero_def empty_store_def indexed_chunk_def sample_chunk_def)

text \<open>
  C7. The claim: for every query vector and every k, \<open>search\<close> returns at most k entries
  in descending order of score, ties in insertion order. With a zero-magnitude vector in
  the index (or as the query) the score is NaN (see C3) and the comparator
  \<^verbatim>\<open>b.score - a.score\<close> is NaN against every other entry. Such a comparator is not
  consistent, and the order of the result is then left to the implementation of the
  sort; a stable sort that takes NaN for 0 leaves the entries where they are: an entry of
  score 1 comes back after an entry of score 0.
\<close>

theorem search_zero_embedding_not_descending:
  "map (doc_id \<circ> chunk) (search store_with_zero [Num 1, Num 0] 3) = [''x'', ''z'', ''y'']
   \<and> map score (search store_with_zero [Num 1, Num 0] 3) = [Num 0, NaN, Num 1]
   \<and> \<not> descending_scores (search store_with_zero [Num 1, Num 0] 3)"
  by (simp add: search_def store_with_zero_entries cosineSimilarity_def js_slice0_def js_sort_def
      by_score_desc_def js_sub_def sample_chunk_def indexed_chunk_def descending_scores_def)

section \<open>Properties of the Retriever\<close>

lemma retrieve_results:
  "results (retrieve svc query options embedded) =
     js_slice0 (effective_topK svc options)
       (filter (\<lambda>r. js_ge (score r) (effective_minScore options))
          (apply_filter options
             (search (vectorStore svc) (query_embedding query embedded)
                (2 * effective_topK svc options))))"
  by (simp add: retrieve_def Let_def mult.commute)

lemma retrieve_results_ge:
  "r \<in> set (results (retrieve svc query options embedded)) \<Longrightarrow>
   js_ge (score r) (effective_minScore options)"
  unfolding retrieve_results using set_js_slice0 by fastforce

lemma retrieve_cong:
  "effective_topK svc o1 = effective_topK svc o2 \<Longrightarrow>
   effective_minScore o1 = effective_minScore o2 \<Longrightarrow> opt_filter o1 = opt_filter o2 \<Longrightarrow>
   retrieve svc query o1 embedded = retrieve svc query o2 embedded"
  by (simp add: retrieve_def apply_filter_def)

lemma sample_store_entries:
  "documents sample_store =
     [(''x'', indexed_chunk ''x'' [Num 0, Num 1]), (''y'', indexed_chunk ''y'' [Num 1, Num 0]),
      (''w'', indexed_chunk ''w'' [Num 1, Num 0])]"
  "embeddings sample_store =
     [(''x'', [Num 0, Num 1]), (''y'', [Num 1, Num 0]), (''w'', [Num 1, Num 0])]"
  by (simp_all add: sample_store_def empty_store_def indexed_chunk_def sample_chunk_def)



lemma sample_candidates:
  "search_results (documents sample_store) [Num 1, Num 0] (embeddings sample_store) =
     [indexed_result ''x'' [Num 0, Num 1] (Num 0), indexed_result ''y'' [Num 1, Num 0] (Num 1),
      indexed_result ''w'' [Num 1, Num 0] (Num 1)]"
  by (simp add: sample_store_entries cosineSimilarity_def indexed_result_def)

lemma sample_sorted:
  "js_sort by_score_desc
     [indexed_result ''x'' [Num 0, Num 1] (Num 0), indexed_result ''y'' [Num 1, Num 0] (Num 1),
      indexed_result ''w'' [Num 1, Num 0] (Num 1)]
   = [indexed_result ''y'' [Num 1, Num 0] (Num 1), indexed_result ''w'' [Num 1, Num 0] (Num 1),
      indexed_result ''x'' [Num 0, Num 1] (Num 0)]"
  by (simp add: js_sort_def by_score_desc_def js_sub_def indexed_result_def)




lemma sample_search3:
  "search (vectorStore sample_service) (query_embedding ''fees'' (Some [Num 1, Num 0])) 10
     = [indexed_result ''y'' [Num 1, Num 0] (Num 1), indexed_result ''w'' [Num 1, Num 0] (Num 1),
        indexed_result ''x'' [Num 0, Num 1] (Num 0)]"
  by (simp add: search_def sample_service_def query_embedding_def sample_candidates sample_sorted
      js_slice0_def)

lemma sample_retrieve_zero:
  "results (retrieve sample_service ''fees'' zero_options (Some [Num 1, Num 0]))
     = [indexed_result ''y'' [Num 1, Num 0] (Num 1), indexed_result ''w'' [Num 1, Num 0] (Num 1)]"
proof -
  have k: "effective_topK sample_service zero_options = 5"
    by (simp add: effective_topK_def zero_options_def or_int_def sample_service_def ragService_def
        new_LangChainRAGService_def no_options_def)
  have m: "effective_minScore zero_options = Num (3 / 10)"
    by (simp add: effective_minScore_def zero_options_def or_num_def)
  have af: "apply_filter zero_options xs = xs" for xs
    by (simp add: apply_filter_def zero_options_def)
  show ?thesis
    by (simp add: retrieve_results k m sample_search3 af js_slice0_def indexed_result_def)
qed




text \<open>
  C10. An explicit topK of 0 or an explicit minScore of 0 behaves as if the option were
  omitted: topK becomes the configured default (5 for the exported service) and minScore
  becomes 0.3, so that an explicit minScore of 0 still excludes every result that scores
  below 0.3.
\<close>

theorem retrieve_falsy_options:
  "retrieve svc query (options\<lparr>opt_topK := Some 0\<rparr>) embedded
     = retrieve svc query (options\<lparr>opt_topK := None\<rparr>) embedded
   \<and> retrieve svc query (options\<lparr>opt_minScore := Some (Num 0)\<rparr>) embedded
     = retrieve svc query (options\<lparr>opt_minScore := None\<rparr>) embedded
   \<and> effective_topK svc (options\<lparr>opt_topK := Some 0\<rparr>) = topK svc
   \<and> topK (ragService env_model) = 5
   \<and> effective_minScore (options\<lparr>opt_minScore := Some (Num 0)\<rparr>) = Num (3 / 10)
   \<and> (\<forall>r \<in> set (results (retrieve svc query (options\<lparr>opt_minScore := Some (Num 0)\<rparr>) embedded)).
         js_ge (score r) (Num (3 / 10)))"
proof -
  have k: "effective_topK svc (options\<lparr>opt_topK := Some 0\<rparr>) = topK svc"
    and k': "effective_topK svc (options\<lparr>opt_topK := None\<rparr>) = topK svc"
    by (simp_all add: effective_topK_def or_int_def)
  have m: "effective_minScore (options\<lparr>opt_minScore := Some (Num 0)\<rparr>) = Num (3 / 10)"
    and m': "effective_minScore (options\<lparr>opt_minScore := None\<rparr>) = Num (3 / 10)"
    by (simp_all add: effective_minScore_def or_num_def)
  have a: "retrieve svc query (options\<lparr>opt_topK := Some 0\<rparr>) embedded
     = retrieve svc query (options\<lparr>opt_topK := None\<rparr>) embedded"
    by (rule retrieve_cong) (simp_all add: k k' effective_minScore_def)
  have b: "retrieve svc query (options\<lparr>opt_minScore := Some (Num 0)\<rparr>) embedded
     = retrieve svc query (options\<lparr>opt_minScore := None\<rparr>) embedded"
    by (rule retrieve_cong) (simp_all add: m m' effective_topK_def)
  have c: "topK (ragService env_model) = 5"
    by (simp add: ragService_def new_LangChainRAGService_def no_options_def or_int_def)
  have d: "\<forall>r \<in> set (results (retrieve svc query (options\<lparr>opt_minScore := Some (Num 0)\<rparr>) embedded)).
         js_ge (score r) (Num (3 / 10))"
    using retrieve_results_ge [of _ svc query "options\<lparr>opt_minScore := Some (Num 0)\<rparr>" embedded]
    by (simp add: m)
  show ?thesis using a b c d k m by blast
qed

theorem retrieve_falsy_options_witness:
  "map (doc_id \<circ> chunk) (results (retrieve sample_service ''fees'' zero_options (Some [Num 1, Num 0])))
     = [''y'', ''w'']
   \<and> retrieve sample_service ''fees'' zero_options (Some [Num 1, Num 0])
     = retrieve sample_service ''fees'' no_retrieve_options (Some [Num 1, Num 0])
   \<and> list_all (\<lambda>r. js_ge (score r) (Num (3 / 10)))
        (results (retrieve sample_service ''fees'' zero_options (Some [Num 1, Num 0])))"
proof -
  have z1: "zero_options\<lparr>opt_topK := Some 0\<rparr> = zero_options"
    and z2: "zero_options\<lparr>opt_topK := None\<rparr>\<lparr>opt_minScore := Some (Num 0)\<rparr>
              = zero_options\<lparr>opt_topK := None\<rparr>"
    and z3: "zero_options\<lparr>opt_topK := None\<rparr>\<lparr>opt_minScore := None\<rparr> = no_retrieve_options"
    and z4: "zero_options\<lparr>opt_minScore := Some (Num 0)\<rparr> = zero_options"
    by (simp_all add: zero_options_def no_retrieve_options_def)
  have "retrieve sample_service ''fees'' zero_options (Some [Num 1, Num 0])
     = retrieve sample_service ''fees'' (zero_options\<lparr>opt_topK := None\<rparr>) (Some [Num 1, Num 0])"
    using retrieve_falsy_options [of sample_service "''fees''" zero_options "Some [Num 1, Num 0]"]
    by (simp add: z1)
  also have "\<dots> = retrieve sample_service ''fees'' no_retrieve_options (Some [Num 1, Num 0])"
    using retrieve_falsy_options [of sample_service "''fees''" "zero_options\<lparr>opt_topK := None\<rparr>"
        "Some [Num 1, Num 0]"]
    by (simp add: z2 z3)
  finally have e: "retrieve sample_service ''fees'' zero_options (Some [Num 1, Num 0])
     = retrieve sample_service ''fees'' no_retrieve_options (Some [Num 1, Num 0])" .
  have "\<forall>r \<in> set (results (retrieve sample_service ''fees'' zero_options (Some [Num 1, Num 0]))).
          js_ge (score r) (Num (3 / 10))"
    using retrieve_falsy_options [of sample_service "''fees''" zero_options "Some [Num 1, Num 0]"]
    by (simp add: z4)
  then have l: "list_all (\<lambda>r. js_ge (score r) (Num (3 / 10)))
        (results (retrieve sample_service ''fees'' zero_options (Some [Num 1, Num 0])))"
    by (simp add: list_all_iff)
  have "map (doc_id \<circ> chunk) (results (retrieve sample_service ''fees'' zero_options (Some [Num 1, Num 0])))
     = [''y'', ''w'']"
    by (simp add: sample_retrieve_zero indexed_result_def indexed_chunk_def sample_chunk_def)
  then show ?thesis using e l by blast
qed

section \<open>Properties of the Grounded Generator\<close>

subsection \<open>Rounding to the nearest double\<close>

text \<open>The rounding error is at most half the distance between the doubles around x.\<close>

lemma rne_close: "\<bar>of_int (rne q) - q\<bar> \<le> 1 / 2"
proof -
  have "of_int \<lfloor>q\<rfloor> \<le> q" "q < of_int \<lfloor>q\<rfloor> + 1" by linarith+
  then show ?thesis unfolding rne_def Let_def by (auto simp: abs_le_iff)
qed

lemma rne_of_int: "rne (of_int m) = m"
  by (simp add: rne_def)

lemma double_ulp_pos: "0 < double_ulp x"
  by (simp add: double_ulp_def)

lemma round_double_zero: "round_double 0 = 0"
  by (simp add: round_double_def rne_def)

lemma round_double_ulp: "\<bar>round_double x - x\<bar> \<le> double_ulp x / 2"
proof -
  let ?u = "double_ulp x"
  have u: "0 < ?u" by (rule double_ulp_pos)
  have "round_double x - x = (of_int (rne (x / ?u)) - x / ?u) * ?u"
    using u by (simp add: round_double_def algebra_simps)
  then have "\<bar>round_double x - x\<bar> = \<bar>of_int (rne (x / ?u)) - x / ?u\<bar> * ?u"
    using u by (simp add: abs_mult)
  also have "\<dots> \<le> 1 / 2 * ?u"
    using rne_close [of "x / ?u"] u by (intro mult_right_mono) auto
  finally show ?thesis by simp
qed

lemma two_powr_diff: "(2::real) powr of_int (e - int n) = 2 powr of_int e / 2 ^ n"
  by (simp add: powr_diff powr_realpow)

lemma double_ulp_bound: "x \<noteq> 0 \<Longrightarrow> double_ulp x / 2 \<le> (\<bar>x\<bar> + 1) / 2 ^ 53"
proof -
  assume x: "x \<noteq> 0"
  show ?thesis
  proof (cases "- 1022 \<le> \<lfloor>log 2 \<bar>x\<bar>\<rfloor>")
    case True
    then have e: "double_exponent x = \<lfloor>log 2 \<bar>x\<bar>\<rfloor>" by (simp add: double_exponent_def)
    have "2 powr of_int \<lfloor>log 2 \<bar>x\<bar>\<rfloor> \<le> 2 powr log 2 \<bar>x\<bar>"
      by (intro powr_mono) auto
    also have "\<dots> = \<bar>x\<bar>" using x by simp
    finally have le: "2 powr of_int \<lfloor>log 2 \<bar>x\<bar>\<rfloor> \<le> \<bar>x\<bar>" .
    have "double_ulp x = 2 powr of_int \<lfloor>log 2 \<bar>x\<bar>\<rfloor> / 2 ^ 52"
      unfolding double_ulp_def e using two_powr_diff [of "\<lfloor>log 2 \<bar>x\<bar>\<rfloor>" 52] by simp
    then have "double_ulp x / 2 = 2 powr of_int \<lfloor>log 2 \<bar>x\<bar>\<rfloor> / 2 ^ 53" by simp
    also have "\<dots> \<le> \<bar>x\<bar> / 2 ^ 53" using le by (simp add: divide_right_mono)
    also have "\<dots> \<le> (\<bar>x\<bar> + 1) / 2 ^ 53" by (simp add: divide_right_mono)
    finally show ?thesis .
  next
    case False
    then have e: "double_exponent x = - 1022" by (simp add: double_exponent_def)
    have "double_ulp x = (2::real) powr of_int (- 1022 - 52)" unfolding double_ulp_def e ..
    also have "\<dots> \<le> (2::real) powr of_int (0 - int 52)" by (intro powr_mono) auto
    also have "\<dots> = 1 / 2 ^ 52" unfolding two_powr_diff by simp
    finally have "double_ulp x / 2 \<le> 1 / 2 ^ 53" by simp
    also have "\<dots> \<le> (\<bar>x\<bar> + 1) / 2 ^ 53" by (simp add: divide_right_mono)
    finally show ?thesis .
  qed
qed

lemma round_double_error: "\<bar>round_double x - x\<bar> \<le> (\<bar>x\<bar> + 1) / 2 ^ 53"
proof (cases "x = 0")
  case True
  then show ?thesis by (simp add: round_double_zero)
next
  case False
  then show ?thesis using round_double_ulp [of x] double_ulp_bound [of x] by linarith
qed

lemma round_double_close:
  assumes "\<bar>x - t\<bar> \<le> d" "\<bar>t\<bar> \<le> B" "d \<le> 1"
  shows "\<bar>round_double x - t\<bar> \<le> d + (B + 2) / 2 ^ 53"
proof -
  have "\<bar>x\<bar> \<le> B + 1" using assms by linarith
  then have "(\<bar>x\<bar> + 1) / 2 ^ 53 \<le> (B + 2) / 2 ^ 53" by (simp add: divide_right_mono)
  then show ?thesis using round_double_error [of x] assms(1) by linarith
qed

lemma to_double_small:
  assumes "\<bar>x\<bar> \<le> 2 ^ 40"
  shows "to_double x = Num (round_double x)"
proof -
  have "(\<bar>x\<bar> + 1) / 2 ^ 53 \<le> 1" using assms by simp
  then have "\<bar>round_double x\<bar> \<le> 2 ^ 40 + 1" using round_double_error [of x] assms by linarith
  also have "\<dots> < (2::real) ^ 41" by simp
  also have "\<dots> \<le> 2 ^ 1024" by (rule power_increasing) simp_all
  finally show ?thesis by (simp add: to_double_def)
qed

text \<open>
  The value of \<open>round_double\<close> at a number whose binade is known: below 1 (an exponent
  \<open>-j\<close>) and from 1 on (an exponent j).
\<close>

lemma double_exponent_binade:
  assumes "2 powr of_int e \<le> \<bar>x\<bar>" "\<bar>x\<bar> < 2 powr of_int (e + 1)" "- 1022 \<le> e"
  shows "double_exponent x = e"
proof -
  have "0 < (2::real) powr of_int e" by simp
  then have x: "0 < \<bar>x\<bar>" using assms(1) by linarith
  have "of_int e \<le> log 2 \<bar>x\<bar>" using assms(1) x by (simp add: le_log_iff)
  moreover have "log 2 \<bar>x\<bar> < of_int e + 1" using assms(2) x by (simp add: log_less_iff)
  ultimately have "\<lfloor>log 2 \<bar>x\<bar>\<rfloor> = e" by (intro floor_unique) auto
  then show ?thesis using assms(3) by (simp add: double_exponent_def)
qed

lemma round_double_below_one:
  assumes "1 \<le> \<bar>x\<bar> * 2 ^ j" "\<bar>x\<bar> * 2 ^ j < 2" "j \<le> 1022"
  shows "round_double x = of_int (rne (x * 2 ^ (j + 52))) / 2 ^ (j + 52)"
proof -
  have p: "(2::real) powr of_int (0 - int j) = 1 / 2 ^ j" unfolding two_powr_diff by simp
  have "(2::real) powr of_int (1 - int j) = 2 / 2 ^ j" unfolding two_powr_diff by simp
  moreover have "0 - int j + 1 = 1 - int j" by simp
  ultimately have q: "(2::real) powr of_int (0 - int j + 1) = 2 / 2 ^ j" by simp
  have "1 / 2 ^ j \<le> \<bar>x\<bar>" using assms(1) by (simp add: pos_divide_le_eq)
  moreover have "\<bar>x\<bar> < 2 / 2 ^ j" using assms(2) by (simp add: pos_less_divide_eq)
  ultimately have "double_exponent x = 0 - int j"
    using assms(3) p q by (intro double_exponent_binade) auto
  then have "double_ulp x = 2 powr of_int (0 - int (j + 52))" by (simp add: double_ulp_def)
  also have "\<dots> = 1 / 2 ^ (j + 52)" unfolding two_powr_diff by simp
  finally show ?thesis by (simp add: round_double_def)
qed

lemma round_double_above_one:
  assumes "2 ^ j \<le> \<bar>x\<bar>" "\<bar>x\<bar> < 2 * 2 ^ j" "j \<le> 52"
  shows "round_double x = of_int (rne (x * 2 ^ (52 - j))) / 2 ^ (52 - j)"
proof -
  have p: "(2::real) powr of_int (int j) = 2 ^ j" by (simp add: powr_realpow)
  have q: "(2::real) powr of_int (int j + 1) = 2 * 2 ^ j"
    using p by (simp add: powr_add)
  have "double_exponent x = int j"
    using assms(1,2) p q by (intro double_exponent_binade) auto
  then have "double_ulp x = 2 powr of_int (int j - int 52)" by (simp add: double_ulp_def)
  also have "\<dots> = 2 ^ j / 2 ^ 52" unfolding two_powr_diff p ..
  also have "\<dots> = 1 / 2 ^ (52 - j)" using assms(3) by (simp add: power_diff)
  finally show ?thesis by (simp add: round_double_def)
qed

lemma round_double_one: "round_double 1 = 1"
  using round_double_above_one [of 0 1] by (simp add: rne_def)

lemma round_double_three_eighths: "round_double (3 / 8) = 3 / 8"
  using round_double_below_one [of "3 / 8" 2] by (simp add: rne_def)

lemma round_double_six_tenths: "round_double (6 / 10) = 5404319552844595 / 2 ^ 53"
  using round_double_below_one [of "6 / 10" 1] by (simp add: rne_def)

lemma round_double_four_tenths: "round_double (4 / 10) = 3602879701896397 / 2 ^ 53"
  using round_double_below_one [of "4 / 10" 2] by (simp add: rne_def)

subsection \<open>The confidence\<close>

text \<open>
  The error of the sum of the scores, of the mean, of the capped ratio and of a product
  with a literal, for scores of magnitude at most 1 and a context of fewer than \<open>2\<^sup>3\<^sup>2\<close>
  passages (the length of a JavaScript array is below \<open>2\<^sup>3\<^sup>2\<close>).
\<close>

lemma mul_close:
  fixes a b a' b' :: real
  assumes "\<bar>a - a'\<bar> \<le> da" "\<bar>b - b'\<bar> \<le> db" "\<bar>a'\<bar> \<le> A" "\<bar>b\<bar> \<le> B"
  shows "\<bar>a * b - a' * b'\<bar> \<le> da * B + A * db"
proof -
  have "a * b - a' * b' = (a - a') * b + a' * (b - b')" by (simp add: algebra_simps)
  then have "\<bar>a * b - a' * b'\<bar> \<le> \<bar>a - a'\<bar> * \<bar>b\<bar> + \<bar>a'\<bar> * \<bar>b - b'\<bar>"
    by (metis abs_mult abs_triangle_ineq)
  moreover have "\<bar>a - a'\<bar> * \<bar>b\<bar> \<le> da * B"
    using assms(1,4) by (intro mult_mono) auto
  moreover have "\<bar>a'\<bar> * \<bar>b - b'\<bar> \<le> A * db"
    using assms(2,3) by (intro mult_mono) auto
  ultimately show ?thesis by linarith
qed

lemma foldl_double_add_close:
  assumes "map score ctx = map Num xs" "\<forall>x \<in> set xs. \<bar>x\<bar> \<le> 1"
    and "\<bar>A\<bar> + real (length xs) \<le> N" "0 \<le> k" "k + real (length xs) \<le> N" "N \<le> 2 ^ 32"
    and "\<bar>a - A\<bar> \<le> k * ((2 * N + 1) / 2 ^ 53)"
  shows "\<exists>s. foldl (\<lambda>sum r. double_add sum (score r)) (Num a) ctx = Num s
           \<and> \<bar>s - (A + sum_list xs)\<bar> \<le> (k + real (length xs)) * ((2 * N + 1) / 2 ^ 53)"
  using assms
proof (induction ctx arbitrary: xs a A k)
  case Nil
  then show ?case by simp
next
  case (Cons r ctx)
  define c where "c = (2 * N + 1) / 2 ^ 53"
  from Cons.prems(1) obtain x xs' where xs: "xs = x # xs'" "score r = Num x" "map score ctx = map Num xs'"
    by (cases xs) auto
  have x: "\<bar>x\<bar> \<le> 1" and xs': "\<forall>x \<in> set xs'. \<bar>x\<bar> \<le> 1" using Cons.prems(2) xs(1) by auto
  have len: "real (length xs) = real (length xs') + 1" using xs(1) by simp
  have N0: "0 \<le> N" using Cons.prems(3) by linarith
  have c0: "0 \<le> c" using N0 by (simp add: c_def)
  have "2 * N + 1 \<le> 2 ^ 53" using Cons.prems(6) by simp
  then have c1: "c \<le> 1" by (simp add: c_def)
  have kc: "k * c \<le> k" using c1 Cons.prems(4) by (rule mult_left_le)
  have aA: "\<bar>a - A\<bar> \<le> k * c" using Cons.prems(7) by (simp add: c_def)
  have A1: "\<bar>A\<bar> \<le> N - 1" and k1: "k \<le> N - 1" using Cons.prems(3,5) len by linarith+
  have ax: "\<bar>a + x\<bar> \<le> 2 * N - 1" using aA kc A1 k1 x by linarith
  have "2 * N - 1 \<le> (2::real) ^ 40" using Cons.prems(6) by simp
  then have td: "to_double (a + x) = Num (round_double (a + x))"
    using ax by (intro to_double_small) linarith
  have "(\<bar>a + x\<bar> + 1) / 2 ^ 53 \<le> (2 * N + 1) / 2 ^ 53"
    using ax by (intro divide_right_mono) auto
  then have "\<bar>round_double (a + x) - (a + x)\<bar> \<le> c"
    using round_double_error [of "a + x"] by (simp add: c_def)
  then have "\<bar>round_double (a + x) - (A + x)\<bar> \<le> k * c + c" using aA by linarith
  also have "k * c + c = (k + 1) * c" by (simp add: algebra_simps)
  finally have step: "\<bar>round_double (a + x) - (A + x)\<bar> \<le> (k + 1) * ((2 * N + 1) / 2 ^ 53)"
    unfolding c_def .
  have "\<exists>s. foldl (\<lambda>sum r. double_add sum (score r)) (Num (round_double (a + x))) ctx = Num s
           \<and> \<bar>s - (A + x + sum_list xs')\<bar> \<le> (k + 1 + real (length xs')) * ((2 * N + 1) / 2 ^ 53)"
  proof (rule Cons.IH [OF xs(3) xs' _ _ _ Cons.prems(6) step])
    show "\<bar>A + x\<bar> + real (length xs') \<le> N" using Cons.prems(3) len x by linarith
    show "0 \<le> k + 1" using Cons.prems(4) by simp
    show "k + 1 + real (length xs') \<le> N" using Cons.prems(5) len by linarith
  qed
  then show ?case
    by (simp add: xs(1,2) double_add_def td add.assoc add.commute [of 1])
qed

lemma sum_list_abs_le:
  "\<forall>x \<in> set xs. \<bar>x\<bar> \<le> (1::real) \<Longrightarrow> \<bar>sum_list xs\<bar> \<le> real (length xs)"
  by (induction xs) auto

lemma avgScore_close:
  assumes "map score ctx = map Num xs" "ctx \<noteq> []" "length ctx < 2 ^ 32" "\<forall>x \<in> set xs. \<bar>x\<bar> \<le> 1"
  shows "\<exists>m. double_div (foldl (\<lambda>sum r. double_add sum (score r)) (Num 0) ctx)
                 (Num (real (length ctx))) = Num m
           \<and> \<bar>m - sum_list xs / real (length xs)\<bar> \<le> 1 / 10 ^ 6"
proof -
  define n where "n = real (length xs)"
  have len: "length xs = length ctx" using assms(1) by (metis length_map)
  have n1: "1 \<le> n" using assms(2) len by (cases ctx) (auto simp: n_def)
  have "real (length ctx) < 2 ^ 32" using assms(3) by (metis of_nat_less_iff of_nat_numeral of_nat_power)
  then have n2: "n \<le> 2 ^ 32" by (simp add: n_def len)
  define c where "c = (2 * n + 1) / 2 ^ 53"
  have "2 * n + 1 \<le> 2 ^ 33 + 1" using n2 by simp
  then have "c \<le> (2 ^ 33 + 1) / 2 ^ 53" unfolding c_def by (intro divide_right_mono) auto
  then have c: "c \<le> 1 / 2 ^ 20 + 1 / 2 ^ 53" by simp
  have "\<exists>s. foldl (\<lambda>sum r. double_add sum (score r)) (Num 0) ctx = Num s
           \<and> \<bar>s - (0 + sum_list xs)\<bar> \<le> (0 + real (length xs)) * ((2 * n + 1) / 2 ^ 53)"
  proof (rule foldl_double_add_close [OF assms(1) assms(4) _ _ _ n2])
    show "\<bar>0::real\<bar> + real (length xs) \<le> n" by (simp add: n_def)
    show "(0::real) \<le> 0" by simp
    show "0 + real (length xs) \<le> n" by (simp add: n_def)
    show "\<bar>0 - 0\<bar> \<le> 0 * ((2 * n + 1) / 2 ^ 53)" by simp
  qed
  then obtain s where s: "foldl (\<lambda>sum r. double_add sum (score r)) (Num 0) ctx = Num s"
    and "\<bar>s - sum_list xs\<bar> \<le> n * c" by (auto simp: n_def c_def)
  then have "\<bar>s - sum_list xs\<bar> / n \<le> c" using n1 by (simp add: pos_divide_le_eq mult.commute)
  moreover have "\<bar>s / n - sum_list xs / n\<bar> = \<bar>s - sum_list xs\<bar> / n"
    using n1 by (simp add: diff_divide_distrib [symmetric])
  ultimately have d: "\<bar>s / n - sum_list xs / n\<bar> \<le> 1 / 2 ^ 20 + 1 / 2 ^ 53" using c by linarith
  have "\<bar>sum_list xs\<bar> \<le> n" unfolding n_def using assms(4) by (rule sum_list_abs_le)
  then have "\<bar>sum_list xs\<bar> / n \<le> 1" using n1 by (simp add: pos_divide_le_eq)
  then have t: "\<bar>sum_list xs / n\<bar> \<le> 1" using n1 by simp
  have "(1::real) / 2 ^ 20 + 1 / 2 ^ 53 \<le> 1" by simp
  then have "\<bar>s / n\<bar> \<le> 2" using d t by linarith
  then have td: "to_double (s / n) = Num (round_double (s / n))" by (intro to_double_small) simp
  have "\<bar>round_double (s / n) - sum_list xs / n\<bar> \<le> 1 / 2 ^ 20 + 1 / 2 ^ 53 + (1 + 2) / 2 ^ 53"
    by (rule round_double_close [OF d t]) simp
  then have "\<bar>round_double (s / n) - sum_list xs / n\<bar> \<le> 1 / 10 ^ 6" by simp
  moreover have "double_div (Num s) (Num (real (length ctx))) = Num (round_double (s / n))"
    using assms(2) td by (simp add: double_div_def n_def len)
  ultimately show ?thesis unfolding s n_def by blast
qed

lemma citationRatio_close:
  assumes "0 < n"
  shows "\<exists>r. js_min (double_div (Num (real c)) (Num (real n))) (Num 1) = Num r
           \<and> \<bar>r - min (real c / real n) 1\<bar> \<le> 1 / 10 ^ 15 \<and> \<bar>r\<bar> \<le> 1"
proof -
  define x where "x = real c / real n"
  have x0: "0 \<le> x" by (simp add: x_def)
  have dd: "double_div (Num (real c)) (Num (real n)) = to_double x"
    using assms by (simp add: double_div_def x_def)
  have e: "\<bar>round_double x - x\<bar> \<le> (x + 1) / 2 ^ 53" using round_double_error [of x] x0 by simp
  show ?thesis
  proof (cases "x \<le> 2")
    case True
    then have "to_double x = Num (round_double x)" using x0 by (intro to_double_small) simp
    then have m: "js_min (double_div (Num (real c)) (Num (real n))) (Num 1) = Num (min (round_double x) 1)"
      by (simp add: dd)
    have "(x + 1) / 2 ^ 53 \<le> 3 / 2 ^ 53" using True by (intro divide_right_mono) auto
    then have h: "\<bar>round_double x - x\<bar> \<le> 1 / 10 ^ 15" using e by simp
    have b: "(1::real) / 10 ^ 15 \<le> 1" by simp
    have "\<bar>min (round_double x) 1 - min x 1\<bar> \<le> 1 / 10 ^ 15" using h x0 by linarith
    moreover have "\<bar>min (round_double x) 1\<bar> \<le> 1" using h x0 b by linarith
    ultimately have "\<bar>min (round_double x) 1 - min x 1\<bar> \<le> 1 / 10 ^ 15 \<and> \<bar>min (round_double x) 1\<bar> \<le> 1"
      by blast
    then show ?thesis using m unfolding x_def by blast
  next
    case False
    have "(x + 1) / 2 ^ 53 \<le> x / 2" using False by simp
    then have r1: "1 \<le> round_double x" using e False by linarith
    have "js_min (to_double x) (Num 1) = Num 1"
      using r1 False by (simp add: to_double_def)
    moreover have "min x 1 = 1" using False by simp
    ultimately show ?thesis unfolding dd x_def by simp
  qed
qed

lemma mean_abs_le:
  assumes "xs \<noteq> []" "\<forall>x \<in> set xs. \<bar>x\<bar> \<le> (1::real)"
  shows "\<bar>sum_list xs / real (length xs)\<bar> \<le> 1"
proof -
  have "0 < real (length xs)" using assms(1) by simp
  moreover have "\<bar>sum_list xs\<bar> \<le> real (length xs)" using assms(2) by (rule sum_list_abs_le)
  ultimately show ?thesis by (simp add: pos_divide_le_eq)
qed

lemma double_literal:
  assumes "0 \<le> q" "q \<le> 1"
  shows "to_double q = Num (round_double q) \<and> \<bar>round_double q - q\<bar> \<le> 2 / 2 ^ 53
         \<and> \<bar>round_double q\<bar> \<le> 2"
proof -
  have "to_double q = Num (round_double q)" using assms by (intro to_double_small) simp
  moreover have "(\<bar>q\<bar> + 1) / 2 ^ 53 \<le> 2 / 2 ^ 53" using assms by (intro divide_right_mono) auto
  then have e: "\<bar>round_double q - q\<bar> \<le> 2 / 2 ^ 53" using round_double_error [of q] by linarith
  moreover have "(2::real) / 2 ^ 53 \<le> 1" by simp
  then have "\<bar>round_double q\<bar> \<le> 2" using e assms by linarith
  ultimately show ?thesis by blast
qed

lemma double_mul_close:
  assumes "\<bar>a - t\<bar> \<le> d" "d \<le> 1 / 10 ^ 6" "\<bar>t\<bar> \<le> 1" "0 \<le> q" "q \<le> 1"
  shows "\<exists>p. double_mul (Num a) (to_double q) = Num p \<and> \<bar>p - q * t\<bar> \<le> 2 * d + 1 / 10 ^ 15"
proof -
  from double_literal [OF assms(4,5)]
  have lit: "to_double q = Num (round_double q)" and lq: "\<bar>round_double q - q\<bar> \<le> 2 / 2 ^ 53"
    and bq: "\<bar>round_double q\<bar> \<le> 2" by blast+
  have "\<bar>a * round_double q - t * q\<bar> \<le> d * 2 + 1 * (2 / 2 ^ 53)"
    by (rule mul_close [OF assms(1) lq assms(3) bq])
  then have e: "\<bar>a * round_double q - q * t\<bar> \<le> d * 2 + 1 * (2 / 2 ^ 53)"
    by (simp add: mult.commute)
  have "\<bar>q * t\<bar> \<le> 1 * 1" unfolding abs_mult using assms(3,4,5) by (intro mult_mono) auto
  then have t: "\<bar>q * t\<bar> \<le> 1" by simp
  have d1: "d * 2 + 1 * (2 / 2 ^ 53) \<le> 1" using assms(2) by simp
  have "\<bar>a * round_double q\<bar> \<le> 2" using e t d1 by linarith
  then have td: "to_double (a * round_double q) = Num (round_double (a * round_double q))"
    by (intro to_double_small) simp
  have "\<bar>round_double (a * round_double q) - q * t\<bar> \<le> d * 2 + 1 * (2 / 2 ^ 53) + (1 + 2) / 2 ^ 53"
    by (rule round_double_close [OF e t d1])
  then have "\<bar>round_double (a * round_double q) - q * t\<bar> \<le> 2 * d + 1 / 10 ^ 15" by simp
  moreover have "double_mul (Num a) (to_double q) = Num (round_double (a * round_double q))"
    by (simp add: double_mul_def lit td)
  ultimately show ?thesis by blast
qed

lemma calculateConfidence_hundredths:
  assumes "map score ctx = map Num xs" "ctx \<noteq> []" "length ctx < 2 ^ 32" "\<forall>x \<in> set xs. \<bar>x\<bar> \<le> 1"
  shows "\<exists>k. calculateConfidence ctx n = Num (round_double (of_int k / 100))
           \<and> \<bar>of_int k - 100 * spec_confidence xs n\<bar> \<le> 1 / 2 + 1 / 1000"
proof -
  define M where "M = sum_list xs / real (length xs)"
  define R where "R = min (real n / real (length xs)) 1"
  define v where "v = 6 / 10 * M + 4 / 10 * R"
  have len: "length xs = length ctx" using assms(1) by (metis length_map)
  have ne: "xs \<noteq> []" using assms(2) len by auto
  have M1: "\<bar>M\<bar> \<le> 1" unfolding M_def using ne assms(4) by (rule mean_abs_le)
  have R1: "\<bar>R\<bar> \<le> 1" by (simp add: R_def min_def)
  have v1: "\<bar>v\<bar> \<le> 1" unfolding v_def using M1 R1 by linarith
  from avgScore_close [OF assms]
  obtain m where m: "double_div (foldl (\<lambda>sum r. double_add sum (score r)) (Num 0) ctx)
                       (Num (real (length ctx))) = Num m"
    and mM: "\<bar>m - M\<bar> \<le> 1 / 10 ^ 6" unfolding M_def by blast
  have "0 < length ctx" using assms(2) by simp
  from citationRatio_close [OF this, of n]
  obtain r where r: "js_min (double_div (Num (real n)) (Num (real (length ctx)))) (Num 1) = Num r"
    and rR: "\<bar>r - R\<bar> \<le> 1 / 10 ^ 15" unfolding R_def len by blast
  from double_mul_close [OF mM _ M1, of "6 / 10"]
  obtain p1 where p1: "double_mul (Num m) (to_double (6 / 10)) = Num p1"
    and e1: "\<bar>p1 - 6 / 10 * M\<bar> \<le> 2 * (1 / 10 ^ 6) + 1 / 10 ^ 15" by auto
  from double_mul_close [OF rR _ R1, of "4 / 10"]
  obtain p2 where p2: "double_mul (Num r) (to_double (4 / 10)) = Num p2"
    and e2: "\<bar>p2 - 4 / 10 * R\<bar> \<le> 2 * (1 / 10 ^ 15) + 1 / 10 ^ 15" by auto
  have "2 * (1 / 10 ^ 6) + 1 / 10 ^ 15 + (2 * (1 / 10 ^ 15) + 1 / 10 ^ 15) \<le> (21::real) / 10 ^ 7"
    by simp
  then have e3: "\<bar>p1 + p2 - v\<bar> \<le> 21 / 10 ^ 7" unfolding v_def using e1 e2 by linarith
  have b3: "(21::real) / 10 ^ 7 \<le> 1" by simp
  have "\<bar>p1 + p2\<bar> \<le> 2" using e3 v1 b3 by linarith
  then have tw: "to_double (p1 + p2) = Num (round_double (p1 + p2))" by (intro to_double_small) simp
  define w where "w = round_double (p1 + p2)"
  have "\<bar>w - v\<bar> \<le> 21 / 10 ^ 7 + (1 + 2) / 2 ^ 53"
    unfolding w_def by (rule round_double_close [OF e3 v1 b3])
  moreover have "21 / 10 ^ 7 + (1 + 2) / 2 ^ 53 \<le> (3::real) / 10 ^ 6" by simp
  ultimately have e4: "\<bar>w - v\<bar> \<le> 3 / 10 ^ 6" by linarith
  have w: "double_add (Num p1) (Num p2) = Num w" by (simp add: double_add_def tw w_def)
  have "100 * ((3::real) / 10 ^ 6) = 3 / 10 ^ 4" by simp
  then have e5: "\<bar>w * 100 - 100 * v\<bar> \<le> 3 / 10 ^ 4" using e4 by linarith
  have v100: "\<bar>100 * v\<bar> \<le> 100" using v1 by linarith
  have b5: "(3::real) / 10 ^ 4 \<le> 1" by simp
  have "\<bar>w * 100\<bar> \<le> 101" using e5 v100 b5 by linarith
  then have ty: "to_double (w * 100) = Num (round_double (w * 100))" by (intro to_double_small) simp
  define y where "y = round_double (w * 100)"
  have "\<bar>y - 100 * v\<bar> \<le> 3 / 10 ^ 4 + (100 + 2) / 2 ^ 53"
    unfolding y_def by (rule round_double_close [OF e5 v100 b5])
  moreover have "3 / 10 ^ 4 + (100 + 2) / 2 ^ 53 \<le> (1::real) / 1000" by simp
  ultimately have e6: "\<bar>y - 100 * v\<bar> \<le> 1 / 1000" by linarith
  have y: "double_mul (Num w) (Num 100) = Num y" by (simp add: double_mul_def ty y_def)
  define k where "k = \<lfloor>y + 1 / 2\<rfloor>"
  have "of_int k \<le> y + 1 / 2" "y + 1 / 2 < of_int k + 1" unfolding k_def by linarith+
  then have e7: "\<bar>of_int k - 100 * v\<bar> \<le> 1 / 2 + 1 / 1000" using e6 by linarith
  have "\<bar>of_int k :: real\<bar> \<le> 200" using e7 v100 by linarith
  then have "\<bar>of_int k / 100 :: real\<bar> \<le> 2" by simp
  then have tk: "to_double (of_int k / 100) = Num (round_double (of_int k / 100))"
    by (intro to_double_small) simp
  have "calculateConfidence ctx n = double_div (js_round (Num y)) (Num 100)"
    using assms(2) unfolding calculateConfidence_def Let_def m r p1 p2 w y by simp
  also have "\<dots> = Num (round_double (of_int k / 100))"
    using tk by (simp add: double_div_def k_def)
  finally have "calculateConfidence ctx n = Num (round_double (of_int k / 100))" .
  moreover have "spec_confidence xs n = v" by (simp add: spec_confidence_def v_def M_def R_def)
  ultimately show ?thesis using e7 by blast
qed

lemma spec_confidence_range:
  assumes "\<forall>x \<in> set xs. 0 \<le> x \<and> x \<le> 1" "xs \<noteq> []"
  shows "0 \<le> spec_confidence xs n \<and> spec_confidence xs n \<le> 1"
proof -
  have "0 \<le> sum_list xs" using assms(1) by (simp add: sum_list_nonneg)
  moreover have "sum_list xs \<le> real (length xs)"
    using assms(1) by (induction xs) auto
  moreover have "0 < real (length xs)" using assms(2) by simp
  ultimately have a: "0 \<le> sum_list xs / real (length xs)" "sum_list xs / real (length xs) \<le> 1"
    by (simp_all add: divide_le_eq)
  have b: "0 \<le> min (real n / real (length xs)) 1" "min (real n / real (length xs)) 1 \<le> 1"
    by simp_all
  show ?thesis unfolding spec_confidence_def using a b by linarith
qed

lemma spec_confidence_abs_le:
  assumes "\<forall>x \<in> set xs. \<bar>x\<bar> \<le> 1" "xs \<noteq> []"
  shows "\<bar>spec_confidence xs n\<bar> \<le> 1"
proof -
  have a: "\<bar>sum_list xs / real (length xs)\<bar> \<le> 1" using assms(2,1) by (rule mean_abs_le)
  have b: "0 \<le> min (real n / real (length xs)) 1" "min (real n / real (length xs)) 1 \<le> 1"
    by simp_all
  show ?thesis unfolding spec_confidence_def using a b by linarith
qed

lemma hundredths_away_from_tie:
  fixes t :: real
  assumes "\<bar>of_int k - t\<bar> \<le> 1 / 2 + 1 / 1000" "1 / 1000 < \<bar>t - (of_int \<lfloor>t\<rfloor> + 1 / 2)\<bar>"
  shows "k = \<lfloor>t + 1 / 2\<rfloor>"
proof -
  have f: "of_int \<lfloor>t\<rfloor> \<le> t" "t < of_int \<lfloor>t\<rfloor> + 1" by linarith+
  show ?thesis
  proof (cases "t < of_int \<lfloor>t\<rfloor> + 1 / 2")
    case True
    then have "\<lfloor>t + 1 / 2\<rfloor> = \<lfloor>t\<rfloor>" using f by (intro floor_unique) linarith+
    moreover have "real_of_int k < of_int \<lfloor>t\<rfloor> + 1" "real_of_int \<lfloor>t\<rfloor> < of_int k + 1"
      using assms True f by linarith+
    then have "k = \<lfloor>t\<rfloor>" by linarith
    ultimately show ?thesis by simp
  next
    case False
    then have "\<lfloor>t + 1 / 2\<rfloor> = \<lfloor>t\<rfloor> + 1" using f by (intro floor_unique) (simp; linarith)+
    moreover have "real_of_int k < of_int \<lfloor>t\<rfloor> + 2" "real_of_int \<lfloor>t\<rfloor> < of_int k"
      using assms False f by linarith+
    then have "k = \<lfloor>t\<rfloor> + 1" by linarith
    ultimately show ?thesis by simp
  qed
qed

lemma round_double_hundredths:
  assumes "\<bar>real_of_int k - 100 * v\<bar> \<le> 1 / 2 + 1 / 1000" "\<bar>v\<bar> \<le> 1"
  shows "to_double (of_int k / 100) = Num (round_double (of_int k / 100))"
    and "\<bar>round_double (of_int k / 100) - v\<bar> \<le> 1 / 200 + 1 / 50000"
proof -
  have k: "\<bar>real_of_int k\<bar> \<le> 101" using assms by linarith
  then have x: "\<bar>real_of_int k / 100\<bar> \<le> 101 / 100" by simp
  then show "to_double (of_int k / 100) = Num (round_double (of_int k / 100))"
    by (intro to_double_small) simp
  have "(\<bar>real_of_int k / 100\<bar> + 1) / 2 ^ 53 \<le> (101 / 100 + 1) / 2 ^ 53"
    using x by (intro divide_right_mono) auto
  then have "\<bar>round_double (of_int k / 100) - of_int k / 100\<bar> \<le> (101 / 100 + 1) / 2 ^ 53"
    using round_double_error [of "of_int k / 100"] by linarith
  moreover have "(101 / 100 + 1) / 2 ^ 53 \<le> (1::real) / 100000" by simp
  moreover have "\<bar>real_of_int k / 100 - v\<bar> \<le> 1 / 200 + 1 / 100000" using assms(1) by linarith
  ultimately show "\<bar>round_double (of_int k / 100) - v\<bar> \<le> 1 / 200 + 1 / 50000" by linarith
qed

lemma round_double_hundredths_range:
  assumes "0 \<le> k" "k \<le> 100"
  shows "0 \<le> round_double (of_int k / 100) \<and> round_double (of_int k / 100) \<le> 1"
proof -
  consider "k = 0" | "k = 100" | "1 \<le> k" "k \<le> 99" using assms by linarith
  then show ?thesis
  proof cases
    case 1
    then show ?thesis by (simp add: round_double_zero)
  next
    case 2
    then show ?thesis by (simp add: round_double_one)
  next
    case 3
    define x where "x = real_of_int k / 100"
    have "1 \<le> real_of_int k" "real_of_int k \<le> 99" using 3 by simp_all
    then have x: "1 / 100 \<le> x" "x \<le> 99 / 100" by (simp_all add: x_def)
    then have "(\<bar>x\<bar> + 1) / 2 ^ 53 \<le> 2 / 2 ^ 53" by (intro divide_right_mono) auto
    then have "\<bar>round_double x - x\<bar> \<le> 2 / 2 ^ 53" using round_double_error [of x] by linarith
    moreover have "(2::real) / 2 ^ 53 \<le> 1 / 100" by simp
    ultimately show ?thesis using x unfolding x_def by linarith
  qed
qed

text \<open>
  One passage of score 0.375, no citation. The exact value is 0.225, a tie between 0.22
  and 0.23. The product \<^verbatim>\<open>0.375 * 0.6\<close> is the double 0.22499999999999998, a hundred times
  it the double 22.499999999999996, and \<^verbatim>\<open>Math.round\<close> gives 22: the confidence is the
  double nearest to 0.22.
\<close>

lemma to_double_six_tenths: "to_double (6 / 10) = Num (5404319552844595 / 2 ^ 53)"
  using to_double_small [of "6 / 10"] round_double_six_tenths by simp

lemma to_double_three_eighths: "to_double (3 / 8) = Num (3 / 8)"
  using to_double_small [of "3 / 8"] round_double_three_eighths by simp

lemma to_double_zero: "to_double 0 = Num 0"
  using to_double_small [of 0] round_double_zero by simp

lemma calculateConfidence_three_eighths:
  "calculateConfidence [sample_result ''a'' (Num (3 / 8))] 0 = to_double (22 / 100)"
proof -
  let ?p = "2026619832316723 / 2 ^ 53 :: real"
  let ?y = "6333186975989759 / 2 ^ 48 :: real"
  have f: "foldl (\<lambda>sum r. double_add sum (score r)) (Num 0) [sample_result ''a'' (Num (3 / 8))]
             = Num (3 / 8)"
    by (simp add: sample_result_def double_add_def to_double_three_eighths)
  have a: "double_div (Num (3 / 8)) (Num (real (length [sample_result ''a'' (Num (3 / 8))]))) = Num (3 / 8)"
    by (simp add: double_div_def to_double_three_eighths)
  have c: "js_min (double_div (Num (real 0)) (Num (real (length [sample_result ''a'' (Num (3 / 8))]))))
             (Num 1) = Num 0"
    by (simp add: double_div_def to_double_zero)
  have "round_double (3 / 8 * (5404319552844595 / 2 ^ 53)) = ?p"
    using round_double_below_one [of "3 / 8 * (5404319552844595 / 2 ^ 53)" 3] by (simp add: rne_def)
  moreover have "to_double (3 / 8 * (5404319552844595 / 2 ^ 53))
      = Num (round_double (3 / 8 * (5404319552844595 / 2 ^ 53)))"
    by (rule to_double_small) simp
  ultimately have "to_double (3 / 8 * (5404319552844595 / 2 ^ 53)) = Num ?p" by simp
  then have p1: "double_mul (Num (3 / 8)) (to_double (6 / 10)) = Num ?p"
    unfolding double_mul_def to_double_six_tenths by simp
  have p2: "double_mul (Num 0) (to_double (4 / 10)) = Num 0"
    using to_double_small [of "4 / 10"] by (simp add: double_mul_def to_double_zero)
  have "round_double ?p = ?p"
    using round_double_below_one [of ?p 3] by (simp add: rne_def)
  moreover have "to_double ?p = Num (round_double ?p)" by (rule to_double_small) simp
  ultimately have w: "double_add (Num ?p) (Num 0) = Num ?p" by (simp add: double_add_def)
  have "round_double (?p * 100) = ?y"
    using round_double_above_one [of 4 "?p * 100"] by (simp add: rne_def)
  moreover have "to_double (?p * 100) = Num (round_double (?p * 100))" by (rule to_double_small) simp
  ultimately have y: "double_mul (Num ?p) (Num 100) = Num ?y" by (simp add: double_mul_def)
  have k: "js_round (Num ?y) = Num 22" by simp
  have d: "double_div (Num 22) (Num 100) = to_double (22 / 100)" by (simp add: double_div_def)
  show ?thesis unfolding calculateConfidence_def Let_def f a c p1 p2 w y k d by simp
qed

text \<open>
  C9. The claim as amended. For an empty context the confidence is 0. For a non-empty
  context of fewer than \<open>2\<^sup>3\<^sup>2\<close> passages whose scores are numbers in [-1, 1], the confidence
  is the double nearest to k/100 for a whole number k of hundredths, and k is at most
  0.501 away from a hundred times v, where v is 0.6 times the mean score plus 0.4 times
  the ratio of cited count to context count capped at 1. So k is v rounded to two
  decimal places (a half rounded up) unless a hundred times v is within 0.001 of a tie,
  where the rounding of the doubles decides; and the confidence is at most 0.00502 away
  from v. It lies in [0, 1] whenever every score of the context lies in [0, 1]; the
  source does not clamp, so a negative score can give a negative confidence.
\<close>

theorem calculateConfidence_rounded_formula:
  "calculateConfidence [] n = Num 0
   \<and> (map score ctx = map Num xs \<and> ctx \<noteq> [] \<and> length ctx < 2 ^ 32
        \<and> (\<forall>x \<in> set xs. - 1 \<le> x \<and> x \<le> 1) \<longrightarrow>
       (\<exists>k c. calculateConfidence ctx n = to_double (of_int k / 100)
           \<and> to_double (of_int k / 100) = Num c
           \<and> \<bar>of_int k - 100 * spec_confidence xs n\<bar> \<le> 1 / 2 + 1 / 1000
           \<and> (1 / 1000 < \<bar>100 * spec_confidence xs n
                            - (of_int \<lfloor>100 * spec_confidence xs n\<rfloor> + 1 / 2)\<bar> \<longrightarrow>
                k = \<lfloor>100 * spec_confidence xs n + 1 / 2\<rfloor>)
           \<and> \<bar>c - spec_confidence xs n\<bar> \<le> 1 / 200 + 1 / 50000
           \<and> ((\<forall>x \<in> set xs. 0 \<le> x) \<longrightarrow> 0 \<le> c \<and> c \<le> 1)))"
proof -
  have "calculateConfidence [] n = Num 0" by (simp add: calculateConfidence_def)
  moreover have "\<exists>k c. calculateConfidence ctx n = to_double (of_int k / 100)
           \<and> to_double (of_int k / 100) = Num c
           \<and> \<bar>of_int k - 100 * spec_confidence xs n\<bar> \<le> 1 / 2 + 1 / 1000
           \<and> (1 / 1000 < \<bar>100 * spec_confidence xs n
                            - (of_int \<lfloor>100 * spec_confidence xs n\<rfloor> + 1 / 2)\<bar> \<longrightarrow>
                k = \<lfloor>100 * spec_confidence xs n + 1 / 2\<rfloor>)
           \<and> \<bar>c - spec_confidence xs n\<bar> \<le> 1 / 200 + 1 / 50000
           \<and> ((\<forall>x \<in> set xs. 0 \<le> x) \<longrightarrow> 0 \<le> c \<and> c \<le> 1)"
    if h: "map score ctx = map Num xs" "ctx \<noteq> []" "length ctx < 2 ^ 32"
      "\<forall>x \<in> set xs. - 1 \<le> x \<and> x \<le> 1"
  proof -
    let ?v = "spec_confidence xs n"
    have ne: "xs \<noteq> []" using h(1,2) by auto
    have a: "\<forall>x \<in> set xs. \<bar>x\<bar> \<le> 1" using h(4) by (simp add: abs_le_iff)
    have v: "\<bar>?v\<bar> \<le> 1" using a ne by (rule spec_confidence_abs_le)
    from calculateConfidence_hundredths [OF h(1,2,3) a, of n]
    obtain k where c: "calculateConfidence ctx n = Num (round_double (of_int k / 100))"
      and k: "\<bar>of_int k - 100 * ?v\<bar> \<le> 1 / 2 + 1 / 1000" by blast
    let ?c = "round_double (of_int k / 100)"
    have t: "to_double (of_int k / 100) = Num ?c" and e: "\<bar>?c - ?v\<bar> \<le> 1 / 200 + 1 / 50000"
      using round_double_hundredths [OF k v] by blast+
    have tie: "k = \<lfloor>100 * ?v + 1 / 2\<rfloor>"
      if "1 / 1000 < \<bar>100 * ?v - (of_int \<lfloor>100 * ?v\<rfloor> + 1 / 2)\<bar>"
      using k that by (rule hundredths_away_from_tie)
    have r: "0 \<le> ?c \<and> ?c \<le> 1" if "\<forall>x \<in> set xs. 0 \<le> x"
    proof -
      have "\<forall>x \<in> set xs. 0 \<le> x \<and> x \<le> 1" using that h(4) by simp
      then have "0 \<le> ?v \<and> ?v \<le> 1" using ne by (rule spec_confidence_range)
      then have "- 1 < real_of_int k" "real_of_int k < 101" using k by linarith+
      then have "0 \<le> k" "k \<le> 100" by linarith+
      then show ?thesis by (rule round_double_hundredths_range)
    qed
    show ?thesis using c t k e tie r by (intro exI [of _ k] exI [of _ ?c]) simp
  qed
  ultimately show ?thesis by blast
qed

theorem calculateConfidence_witness:
  "map score two_results = map Num [8 / 10, 6 / 10] \<and> two_results \<noteq> []
   \<and> length two_results < 2 ^ 32
   \<and> list_all (\<lambda>x. - 1 \<le> x \<and> x \<le> 1) [8 / 10, 6 / 10 :: real]
   \<and> list_all (\<lambda>x. 0 \<le> x) [8 / 10, 6 / 10 :: real]
   \<and> spec_confidence [8 / 10, 6 / 10] 1 = 62 / 100
   \<and> 1 / 1000 < \<bar>100 * spec_confidence [8 / 10, 6 / 10] 1
                    - (of_int \<lfloor>100 * spec_confidence [8 / 10, 6 / 10] 1\<rfloor> + 1 / 2)\<bar>
   \<and> calculateConfidence two_results 1 = to_double (62 / 100)
   \<and> js_ge (calculateConfidence two_results 1) (Num 0)
   \<and> js_ge (Num 1) (calculateConfidence two_results 1)"
proof -
  have h: "map score two_results = map Num [8 / 10, 6 / 10] \<and> two_results \<noteq> []
      \<and> length two_results < 2 ^ 32 \<and> (\<forall>x \<in> set [8 / 10, 6 / 10 :: real]. - 1 \<le> x \<and> x \<le> 1)"
    by (simp add: two_results_def sample_result_def)
  have p: "\<forall>x \<in> set [8 / 10, 6 / 10 :: real]. 0 \<le> x" by simp
  have v: "spec_confidence [8 / 10, 6 / 10] 1 = 62 / 100"
    by (simp add: spec_confidence_def)
  have t: "1 / 1000 < \<bar>100 * spec_confidence [8 / 10, 6 / 10] 1
                    - (of_int \<lfloor>100 * spec_confidence [8 / 10, 6 / 10] 1\<rfloor> + 1 / 2)\<bar>"
    unfolding v by simp
  have f: "\<lfloor>100 * spec_confidence [8 / 10, 6 / 10] 1 + 1 / 2\<rfloor> = 62" unfolding v by simp
  from h p t calculateConfidence_rounded_formula [of 1 two_results "[8 / 10, 6 / 10]"]
  obtain k c where "calculateConfidence two_results 1 = to_double (of_int k / 100)"
    and "to_double (of_int k / 100) = Num c"
    and "k = \<lfloor>100 * spec_confidence [8 / 10, 6 / 10] 1 + 1 / 2\<rfloor>"
    and "0 \<le> c \<and> c \<le> 1"
    by blast
  then have r: "calculateConfidence two_results 1 = to_double (62 / 100)
      \<and> js_ge (calculateConfidence two_results 1) (Num 0)
      \<and> js_ge (Num 1) (calculateConfidence two_results 1)"
    unfolding f by simp
  have l: "list_all (\<lambda>x. - 1 \<le> x \<and> x \<le> 1) [8 / 10, 6 / 10 :: real]
      \<and> list_all (\<lambda>x. 0 \<le> x) [8 / 10, 6 / 10 :: real]"
    by simp
  show ?thesis using h v t r l by blast
qed

text \<open>
  The claim as stated fails on two counts. The confidence lies in [0, 1] in all cases:
  a context of one passage with score -1 and no citation has the confidence -0.6 (the
  double nearest to it). The confidence is the value rounded to two decimal places: a
  context of one passage with score 0.375 and no citation has the value 0.225, and the
  confidence is the double nearest to 0.22, below the value.
\<close>

theorem calculateConfidence_negative_score:
  "calculateConfidence [sample_result ''a'' (Num (- 1))] 0 = to_double (- (60 / 100))
   \<and> \<not> js_ge (calculateConfidence [sample_result ''a'' (Num (- 1))] 0) (Num 0)
   \<and> spec_confidence [3 / 8] 0 = 225 / 1000
   \<and> calculateConfidence [sample_result ''a'' (Num (3 / 8))] 0 = to_double (22 / 100)
   \<and> \<not> js_ge (calculateConfidence [sample_result ''a'' (Num (3 / 8))] 0) (Num (225 / 1000))"
proof -
  have v: "spec_confidence [- 1] 0 = - (60 / 100)" by (simp add: spec_confidence_def)
  have "\<forall>x \<in> set [- 1 :: real]. \<bar>x\<bar> \<le> 1" by simp
  from calculateConfidence_hundredths [of "[sample_result ''a'' (Num (- 1))]" "[- 1]" 0, OF _ _ _ this]
  obtain k where c: "calculateConfidence [sample_result ''a'' (Num (- 1))] 0
        = Num (round_double (of_int k / 100))"
    and k: "\<bar>of_int k - 100 * spec_confidence [- 1] 0\<bar> \<le> 1 / 2 + 1 / 1000"
    by (auto simp: sample_result_def)
  have "k = \<lfloor>100 * spec_confidence [- 1] 0 + 1 / 2\<rfloor>"
    using k by (rule hundredths_away_from_tie) (simp add: v)
  then have k60: "k = - 60" by (simp add: v)
  have "\<bar>- (60 / 100) :: real\<bar> \<le> 2 ^ 40" by simp
  then have t: "to_double (- (60 / 100)) = Num (round_double (- (60 / 100)))" by (rule to_double_small)
  have "\<bar>round_double (- (60 / 100)) - (- (60 / 100))\<bar> \<le> (\<bar>- (60 / 100) :: real\<bar> + 1) / 2 ^ 53"
    by (rule round_double_error)
  moreover have "(\<bar>- (60 / 100) :: real\<bar> + 1) / 2 ^ 53 \<le> 1 / 100" by simp
  ultimately have neg: "round_double (- (60 / 100)) < 0" by linarith
  have a: "calculateConfidence [sample_result ''a'' (Num (- 1))] 0 = to_double (- (60 / 100))"
    unfolding c k60 t by simp
  have b: "\<not> js_ge (calculateConfidence [sample_result ''a'' (Num (- 1))] 0) (Num 0)"
    unfolding a t using neg by simp
  have w: "spec_confidence [3 / 8] 0 = 225 / 1000" by (simp add: spec_confidence_def)
  have "\<bar>22 / 100 :: real\<bar> \<le> 2 ^ 40" by simp
  then have t2: "to_double (22 / 100) = Num (round_double (22 / 100))" by (rule to_double_small)
  have "\<bar>round_double (22 / 100) - 22 / 100\<bar> \<le> (\<bar>22 / 100 :: real\<bar> + 1) / 2 ^ 53"
    by (rule round_double_error)
  moreover have "(\<bar>22 / 100 :: real\<bar> + 1) / 2 ^ 53 \<le> 1 / 1000" by simp
  ultimately have "round_double (22 / 100) < 225 / 1000" by linarith
  then have d: "\<not> js_ge (calculateConfidence [sample_result ''a'' (Num (3 / 8))] 0) (Num (225 / 1000))"
    unfolding calculateConfidence_three_eighths t2 by simp
  show ?thesis using a b w calculateConfidence_three_eighths d by blast
qed


subsection \<open>The fallback of the generator\<close>

lemma show_nat_4: "show_nat 4 = ''4''"
  by (simp add: show_nat.simps [of 4] digit_char_def)

text \<open>
  C2. The claim as amended. When the generation call fails, \<open>generate\<close> returns
  normally: the answer is the templated fallback text with the number of context
  passages, the citations are the first min(3, context length) context passages, and the
  confidence is 0.5; when the context is not empty, the response is marked as grounded
  and its citations are not empty.
\<close>

theorem generate_fallback:
  assumes "llm (systemPrompt context) query = CallFails"
  shows "answer (generate llm query context) = fallback_answer context
    \<and> citations (generate llm query context) = map to_citation (take (min 3 (length context)) context)
    \<and> length (citations (generate llm query context)) = min 3 (length context)
    \<and> confidence (generate llm query context) = Num (1 / 2)
    \<and> (context \<noteq> [] \<longrightarrow>
         groundedOnSources (generate llm query context)
         \<and> citations (generate llm query context) \<noteq> [])"
  using assms by (auto simp: generate_def min_def)

theorem generate_fallback_witness:
  "failing_llm (systemPrompt four_results) ''What is due?'' = CallFails
   \<and> four_results \<noteq> []
   \<and> answer (generate failing_llm ''What is due?'' four_results)
       = ''Based on the provided documents, I found 4 relevant sections. However, I encountered an issue generating a detailed response. Please try again or review the source documents directly.''
   \<and> map chunkId (citations (generate failing_llm ''What is due?'' four_results)) = [''a'', ''b'', ''c'']
   \<and> confidence (generate failing_llm ''What is due?'' four_results) = Num (1 / 2)
   \<and> groundedOnSources (generate failing_llm ''What is due?'' four_results)"
proof -
  have f: "failing_llm (systemPrompt four_results) ''What is due?'' = CallFails"
    by (simp add: failing_llm_def)
  have l: "length four_results = 4" and ne: "four_results \<noteq> []" by (simp_all add: four_results_def)
  note g = generate_fallback [of failing_llm four_results "''What is due?''", OF f]
  have a: "fallback_answer four_results = ''Based on the provided documents, I found 4 relevant sections. However, I encountered an issue generating a detailed response. Please try again or review the source documents directly.''"
    by (simp add: l fallback_answer_def show_nat_4)
  have c: "map chunkId (map to_citation (take (min 3 (length four_results)) four_results)) = [''a'', ''b'', ''c'']"
    by (simp add: four_results_def to_citation_def sample_result_def sample_chunk_def)
  show ?thesis using f ne g a c by simp
qed

text \<open>
  The claim as stated (citations non-empty for every context list) fails for the empty
  context: the response is marked as grounded and has no citation.
\<close>

theorem generate_fallback_empty_context:
  "citations (generate failing_llm ''What is due?'' []) = []
   \<and> groundedOnSources (generate failing_llm ''What is due?'' [])"
  by (simp add: generate_def failing_llm_def)

subsection \<open>Citations of a generated answer\<close>
















section \<open>Properties of the Segmenter\<close>

lemma split_loop_length:
  "p \<in> set (split_loop m cur rest) \<Longrightarrow> length p \<le> length cur + length rest"
proof (induction m cur rest arbitrary: p rule: split_loop.induct)
  case (1 m cur)
  then show ?case by simp
next
  case (2 m cur c cs)
  show ?case
  proof (cases "m (c # cs)")
    case None
    with 2 show ?thesis by fastforce
  next
    case (Some n)
    show ?thesis
    proof (cases "n = 0 \<and> cur = []")
      case True
      with 2 Some show ?thesis by fastforce
    next
      case False
      with "2.prems" Some have "p = cur \<or> p \<in> set (split_loop m [] (drop n (c # cs)))"
        by auto
      then show ?thesis
      proof
        assume "p = cur" then show ?thesis by simp
      next
        assume "p \<in> set (split_loop m [] (drop n (c # cs)))"
        then have "length p \<le> length ([]::string) + length (drop n (c # cs))"
          using "2.IH"(3) [OF Some False] by blast
        then show ?thesis by simp
      qed
    qed
  qed
qed

lemma js_split_length: "p \<in> set (js_split m s) \<Longrightarrow> length p \<le> length s"
  using split_loop_length [of p m "[]" s]
  by (auto simp: js_split_def split: if_splits option.splits)

lemma split_passes_length: "p \<in> set (split_passes text) \<Longrightarrow> length p \<le> length text"
  unfolding split_passes_def
  by (auto dest!: js_split_length) 

lemma length_trim: "length (trim s) \<le> length s"
proof -
  have "length (trim s) \<le> length (dropWhile is_space s)"
    unfolding trim_def using length_dropWhile_le [of is_space "rev (dropWhile is_space s)"] by simp
  also have "\<dots> \<le> length s" by (rule length_dropWhile_le)
  finally show ?thesis .
qed

text \<open>
  C4. The claim as amended. The output of the Segmenter consists exactly of the trimmed
  segments of the three cascading split passes whose trimmed length is more than 50
  characters: a trimmed segment of 51 characters or more is kept, a segment of 50
  characters or fewer is dropped (the source tests \<^verbatim>\<open>s.length > 50\<close>). Consequently a text
  of at most 50 characters gives the empty sequence.
\<close>

theorem segmentClauses_threshold:
  "segmentClauses text = filter (\<lambda>s. 50 < length s) (map trim (split_passes text))
   \<and> (\<forall>s. s \<in> set (segmentClauses text) \<longleftrightarrow>
          (\<exists>p \<in> set (split_passes text). s = trim p) \<and> 51 \<le> length s)
   \<and> (length text \<le> 50 \<longrightarrow> segmentClauses text = [])"
proof -
  have "segmentClauses text = []" if "length text \<le> 50"
  proof -
    have "length (trim p) \<le> 50" if "p \<in> set (split_passes text)" for p
      using split_passes_length [OF that] length_trim [of p] \<open>length text \<le> 50\<close> by linarith
    then have "\<not> 50 < length (trim p)" if "p \<in> set (split_passes text)" for p
      using that by (simp add: not_less)
    then show ?thesis
      by (auto simp: segmentClauses_def filter_empty_conv)
  qed
  moreover have "s \<in> set (segmentClauses text) \<longleftrightarrow>
          (\<exists>p \<in> set (split_passes text). s = trim p) \<and> 51 \<le> length s" for s
    by (auto simp: segmentClauses_def)
  ultimately show ?thesis by (simp add: segmentClauses_def)
qed

theorem segmentClauses_threshold_witness:
  "length ''Too short to be kept.'' \<le> 50
   \<and> segmentClauses ''Too short to be kept.'' = []
   \<and> split_passes sample_text =
       [''Preamble of the agreement between the supplier and the client parties.'',
        [CHR 0x0A] @ ''Section 1 The supplier shall deliver the goods within thirty days of order.'',
        ''short note'',
        [CHR 0x0A] @ ''2. Payment is due within sixty days of the date of the invoice received.'']
   \<and> segmentClauses sample_text =
       [''Preamble of the agreement between the supplier and the client parties.'',
        ''Section 1 The supplier shall deliver the goods within thirty days of order.'',
        ''2. Payment is due within sixty days of the date of the invoice received.'']"
proof -
  have l: "length ''Too short to be kept.'' \<le> 50" by simp
  with segmentClauses_threshold [of "''Too short to be kept.''"]
  have "segmentClauses ''Too short to be kept.'' = []" by blast
  moreover have "split_passes sample_text =
       [''Preamble of the agreement between the supplier and the client parties.'',
        [CHR 0x0A] @ ''Section 1 The supplier shall deliver the goods within thirty days of order.'',
        ''short note'',
        [CHR 0x0A] @ ''2. Payment is due within sixty days of the date of the invoice received.'']"
    by code_simp
  moreover have "segmentClauses sample_text =
       [''Preamble of the agreement between the supplier and the client parties.'',
        ''Section 1 The supplier shall deliver the goods within thirty days of order.'',
        ''2. Payment is due within sixty days of the date of the invoice received.'']"
    by code_simp
  ultimately show ?thesis using l by blast
qed

lemma split_loop_no_match:
  "\<forall>k. m (drop k rest) = None \<Longrightarrow> split_loop m cur rest = [cur @ rest]"
proof (induction rest arbitrary: cur)
  case Nil
  then show ?case by simp
next
  case (Cons c cs)
  have "m (c # cs) = None" using Cons.prems [rule_format, of 0] by simp
  moreover have "\<forall>k. m (drop k cs) = None" using Cons.prems [rule_format, of "Suc _"] by simp
  ultimately show ?case using Cons.IH [of "cur @ [c]"] by simp
qed

lemma no_newline_drop: "CHR 0x0A \<notin> set s \<Longrightarrow> CHR 0x0A \<notin> set (drop k s)"
  by (auto dest: in_set_dropD)

lemma markers_need_newline:
  "CHR 0x0A \<notin> set s \<Longrightarrow> section_marker s = None \<and> numbered_marker s = None \<and> blank_lines s = None"
  by (cases s) (auto simp: section_marker_def numbered_marker_def blank_lines_def)

lemma js_split_no_newline:
  assumes "CHR 0x0A \<notin> set s"
  shows "js_split section_marker s = [s]" "js_split numbered_marker s = [s]" "js_split blank_lines s = [s]"
  using assms split_loop_no_match [of section_marker s "[]"] split_loop_no_match [of numbered_marker s "[]"]
    split_loop_no_match [of blank_lines s "[]"]
  by (auto simp: js_split_def markers_need_newline no_newline_drop)

lemma split_passes_no_newline: "CHR 0x0A \<notin> set s \<Longrightarrow> split_passes s = [s]"
  by (simp add: split_passes_def js_split_no_newline)

lemma dropWhile_none: "\<forall>c \<in> set s. \<not> P c \<Longrightarrow> dropWhile P s = s"
  by (cases s) auto

lemma trim_no_space: "\<forall>c \<in> set s. \<not> is_space c \<Longrightarrow> trim s = s"
  by (simp add: trim_def dropWhile_none)

text \<open>
  The claim as stated (every trimmed segment of length at least 50 is kept) fails for a
  text of exactly 50 characters without white space: its one segment has length 50 and
  is dropped.
\<close>

theorem segmentClauses_drops_length_50:
  "map trim (split_passes (replicate 50 CHR ''x'')) = [replicate 50 CHR ''x'']
   \<and> length (replicate 50 CHR ''x'') = 50
   \<and> segmentClauses (replicate 50 CHR ''x'') = []"
proof -
  have "split_passes (replicate 50 CHR ''x'') = [replicate 50 CHR ''x'']"
    by (rule split_passes_no_newline) simp
  moreover have "trim (replicate 50 CHR ''x'') = replicate 50 CHR ''x''"
    by (rule trim_no_space) (simp add: is_space_def)
  ultimately show ?thesis by (simp add: segmentClauses_def)
qed

section \<open>Properties of the Chunker\<close>

lemma window_loop_windows:
  assumes step: "0 < chunkSize svc - chunkOverlap svc"
  shows "\<exists>n. j \<le> n
         \<and> window_loop xh ct svc src seg off (int j * (chunkSize svc - chunkOverlap svc))
              (pre @ map (window_at xh ct svc src seg off (length pre)) [0..<j])
           = Some (pre @ map (window_at xh ct svc src seg off (length pre)) [0..<n])
         \<and> (\<forall>k. j \<le> k \<and> k < n \<longrightarrow> int k * (chunkSize svc - chunkOverlap svc) < int (length seg))
         \<and> int (length seg) \<le> int n * (chunkSize svc - chunkOverlap svc)"
proof (induction "nat (int (length seg) - int j * (chunkSize svc - chunkOverlap svc))"
    arbitrary: j rule: less_induct)
  case less
  let ?step = "chunkSize svc - chunkOverlap svc"
  let ?W = "window_at xh ct svc src seg off (length pre)"
  show ?case
  proof (cases "int j * ?step < int (length seg)")
    case False
    then have "window_loop xh ct svc src seg off (int j * ?step) (pre @ map ?W [0..<j])
                 = Some (pre @ map ?W [0..<j])"
      by (subst window_loop.simps) simp
    with False show ?thesis by (intro exI [of _ j]) auto
  next
    case True
    have next_start: "int j * ?step + ?step = int (Suc j) * ?step"
      by (simp add: algebra_simps)
    have next_chunks:
      "(pre @ map ?W [0..<j]) @
         [make_chunk xh ct src (length (pre @ map ?W [0..<j]))
            (js_slice (int j * ?step) (min (int j * ?step + chunkSize svc) (int (length seg))) seg)
            (off + int j * ?step)
            (off + min (int j * ?step + chunkSize svc) (int (length seg)))]
       = pre @ map ?W [0..<Suc j]"
      by (simp add: window_at_def Let_def)
    have unfold: "window_loop xh ct svc src seg off (int j * ?step) (pre @ map ?W [0..<j])
            = window_loop xh ct svc src seg off (int (Suc j) * ?step) (pre @ map ?W [0..<Suc j])"
      by (subst window_loop.simps) (simp only: True if_True next_start next_chunks)
    have "nat (int (length seg) - int (Suc j) * ?step) < nat (int (length seg) - int j * ?step)"
      using True step by (simp add: algebra_simps)
    from less [OF this] obtain n where n: "Suc j \<le> n"
      "window_loop xh ct svc src seg off (int (Suc j) * ?step) (pre @ map ?W [0..<Suc j])
         = Some (pre @ map ?W [0..<n])"
      "\<forall>k. Suc j \<le> k \<and> k < n \<longrightarrow> int k * ?step < int (length seg)"
      "int (length seg) \<le> int n * ?step"
      by blast
    have "\<forall>k. j \<le> k \<and> k < n \<longrightarrow> int k * ?step < int (length seg)"
    proof (intro allI impI)
      fix k assume "j \<le> k \<and> k < n"
      then consider "k = j" | "Suc j \<le> k \<and> k < n" by linarith
      then show "int k * ?step < int (length seg)"
        using True n(3) by cases auto
    qed
    with n unfold show ?thesis by (intro exI [of _ n]) (simp add: Suc_leD)
  qed
qed

lemma createChunks_single:
  "createChunks extractHeading classifyClauseType svc [segment] src =
     map_option fst (chunk_segment extractHeading classifyClauseType svc src segment ([], 0))"
  by (simp add: createChunks_def split: option.splits)

text \<open>
  C5. The claim as amended. For a segment strictly longer than the window size, and an
  overlap smaller than the window size, the Chunker emits one passage per window
  position: window k starts at k times (size - overlap) and ends at the smaller of
  start + size and the segment's length, and the windows stop at the first position at
  or past the segment's length. Two consecutive passages overlap by the smaller of the
  overlap and the distance from the later window's start to the segment's end: exactly
  the configured overlap when the earlier window has the full size, less when the earlier
  window was cut at the segment's end. When the overlap is at most half the window size
  (as with the defaults, 200 of 1000), every pair but the last overlaps by exactly the
  overlap.
\<close>

theorem chunk_segment_windows:
  assumes "chunkSize svc < int (length segment)" and "chunkOverlap svc < chunkSize svc"
  shows "\<exists>n. chunk_segment extractHeading classifyClauseType svc src segment (chunks, charOffset)
             = Some (chunks @ map (window_at extractHeading classifyClauseType svc src segment
                                      charOffset (length chunks)) [0..<n],
                     charOffset + int (length segment))
          \<and> (\<forall>k < n. int k * (chunkSize svc - chunkOverlap svc) < int (length segment))
          \<and> int (length segment) \<le> int n * (chunkSize svc - chunkOverlap svc)
          \<and> (\<forall>k. span (window_at extractHeading classifyClauseType svc src segment
                             charOffset (length chunks) k)
                  = (charOffset + int k * (chunkSize svc - chunkOverlap svc),
                     charOffset + min (int k * (chunkSize svc - chunkOverlap svc) + chunkSize svc)
                                    (int (length segment))))
          \<and> (\<forall>k. Suc k < n \<longrightarrow>
                span_overlap
                  (window_at extractHeading classifyClauseType svc src segment charOffset (length chunks) k)
                  (window_at extractHeading classifyClauseType svc src segment charOffset (length chunks) (Suc k))
                  = min (chunkOverlap svc)
                        (int (length segment) - int (Suc k) * (chunkSize svc - chunkOverlap svc)))
          \<and> (\<forall>k. Suc k < n
                  \<and> int k * (chunkSize svc - chunkOverlap svc) + chunkSize svc \<le> int (length segment) \<longrightarrow>
                span_overlap
                  (window_at extractHeading classifyClauseType svc src segment charOffset (length chunks) k)
                  (window_at extractHeading classifyClauseType svc src segment charOffset (length chunks) (Suc k))
                  = chunkOverlap svc)
          \<and> (2 * chunkOverlap svc \<le> chunkSize svc \<longrightarrow>
               (\<forall>k. Suc (Suc k) < n \<longrightarrow>
                  span_overlap
                    (window_at extractHeading classifyClauseType svc src segment charOffset (length chunks) k)
                    (window_at extractHeading classifyClauseType svc src segment charOffset (length chunks) (Suc k))
                    = chunkOverlap svc))"
proof -
  let ?step = "chunkSize svc - chunkOverlap svc"
  let ?W = "window_at extractHeading classifyClauseType svc src segment charOffset (length chunks)"
  have step: "0 < ?step" using assms(2) by simp
  from window_loop_windows [OF step, of 0 extractHeading classifyClauseType src segment charOffset chunks]
  obtain n where n:
    "window_loop extractHeading classifyClauseType svc src segment charOffset 0 chunks
       = Some (chunks @ map ?W [0..<n])"
    "\<forall>k < n. int k * ?step < int (length segment)"
    "int (length segment) \<le> int n * ?step"
    by auto
  have res: "chunk_segment extractHeading classifyClauseType svc src segment (chunks, charOffset)
             = Some (chunks @ map ?W [0..<n], charOffset + int (length segment))"
    using assms(1) n(1) by (simp add: chunk_segment_def)
  have sp: "span (?W k) = (charOffset + int k * ?step,
                           charOffset + min (int k * ?step + chunkSize svc) (int (length segment)))" for k
    by (simp add: span_def window_at_def make_chunk_def Let_def)
  have ov: "span_overlap (?W k) (?W (Suc k))
              = min (chunkOverlap svc) (int (length segment) - int (Suc k) * ?step)" for k
    by (simp add: span_overlap_def window_at_def make_chunk_def Let_def algebra_simps min_def)
  have full: "span_overlap (?W k) (?W (Suc k)) = chunkOverlap svc"
    if "int k * ?step + chunkSize svc \<le> int (length segment)" for k
    using that unfolding ov by (simp add: algebra_simps)
  have half: "span_overlap (?W k) (?W (Suc k)) = chunkOverlap svc"
    if "2 * chunkOverlap svc \<le> chunkSize svc" "Suc (Suc k) < n" for k
  proof -
    have "int (Suc (Suc k)) * ?step < int (length segment)" using n(2) that(2) by blast
    then have "int k * ?step + chunkSize svc \<le> int (length segment)"
      using that(1) by (simp add: algebra_simps)
    then show ?thesis by (rule full)
  qed
  show ?thesis
    using res n(2,3) sp ov full half by (intro exI [of _ n]) blast
qed

lemma default_config: "chunkSize (ragService None) = 1000 \<and> chunkOverlap (ragService None) = 200"
  by (simp add: ragService_def new_LangChainRAGService_def no_options_def or_int_def)

lemma sample_windows:
  "result_spans
     (chunk_segment no_heading general_type (ragService None) ''doc'' (replicate 1700 CHR ''x'') ([], 0))
   = Some [(0, 1000), (800, 1700), (1600, 1700)]"
  by (simp add: result_spans_def chunk_segment_def default_config window_loop.simps span_def
      make_chunk_def)

theorem chunk_segment_windows_witness:
  "chunkSize (ragService None) < int (length (replicate 1700 CHR ''x''))
   \<and> chunkOverlap (ragService None) < chunkSize (ragService None)
   \<and> result_spans
         (chunk_segment no_heading general_type (ragService None) ''doc'' (replicate 1700 CHR ''x'')
            ([], 0))
       = Some [(0, 1000), (800, 1700), (1600, 1700)]
   \<and> span (window_at no_heading general_type (ragService None) ''doc'' (replicate 1700 CHR ''x'') 0 0 1)
       = (800, 1700)
   \<and> span_overlap
         (window_at no_heading general_type (ragService None) ''doc'' (replicate 1700 CHR ''x'') 0 0 0)
         (window_at no_heading general_type (ragService None) ''doc'' (replicate 1700 CHR ''x'') 0 0 1)
       = 200"
proof -
  let ?W = "window_at no_heading general_type (ragService None) ''doc'' (replicate 1700 CHR ''x'') 0 0"
  have h1: "chunkSize (ragService None) < int (length (replicate 1700 CHR ''x''))"
    and h2: "chunkOverlap (ragService None) < chunkSize (ragService None)"
    by (simp_all add: default_config)
  from chunk_segment_windows [OF h1 h2, of no_heading general_type "''doc''" "[]" 0]
  obtain n where n: "\<forall>k < n. int k * (chunkSize (ragService None) - chunkOverlap (ragService None))
                        < int (length (replicate 1700 CHR ''x''))"
    "int (length (replicate 1700 CHR ''x''))
       \<le> int n * (chunkSize (ragService None) - chunkOverlap (ragService None))"
    "\<forall>k. span (?W k)
        = (0 + int k * (chunkSize (ragService None) - chunkOverlap (ragService None)),
           0 + min (int k * (chunkSize (ragService None) - chunkOverlap (ragService None))
                    + chunkSize (ragService None))
                 (int (length (replicate 1700 CHR ''x''))))"
    "\<forall>k. Suc k < n
           \<and> int k * (chunkSize (ragService None) - chunkOverlap (ragService None))
               + chunkSize (ragService None) \<le> int (length (replicate 1700 CHR ''x'')) \<longrightarrow>
         span_overlap (?W k) (?W (Suc k)) = chunkOverlap (ragService None)"
    by (simp only: list.size append_Nil) blast
  have "3 \<le> n" using n(2) by (simp add: default_config)
  then have "span_overlap (?W 0) (?W (Suc 0)) = chunkOverlap (ragService None)"
    using n(4) [rule_format, of 0] by (simp add: default_config)
  then have o: "span_overlap (?W 0) (?W 1) = 200" by (simp add: default_config)
  have "span (?W 1) = (800, 1700)"
    using n(3) [rule_format, of 1] by (simp add: default_config)
  then show ?thesis using h1 h2 o sample_windows by blast
qed

text \<open>
  The claim as stated (every pair of consecutive passages overlaps by exactly the
  overlap) fails for a segment of 1700 characters with the default window of 1000 and
  overlap of 200: the passages span [0, 1000), [800, 1700) and [1600, 1700), and the last
  two overlap by 100 characters.
\<close>

theorem chunk_segment_last_pair_overlaps_less:
  "chunkSize (ragService None) = 1000 \<and> chunkOverlap (ragService None) = 200
   \<and> length (replicate 1700 CHR ''x'') = 1700
   \<and> result_spans
         (chunk_segment no_heading general_type (ragService None) ''doc'' (replicate 1700 CHR ''x'')
            ([], 0))
       = Some [(0, 1000), (800, 1700), (1600, 1700)]
   \<and> span_overlap
         (window_at no_heading general_type (ragService None) ''doc'' (replicate 1700 CHR ''x'') 0 0 1)
         (window_at no_heading general_type (ragService None) ''doc'' (replicate 1700 CHR ''x'') 0 0 2)
       = 100"
  using sample_windows
  by (simp add: default_config span_overlap_def window_at_def make_chunk_def)

section \<open>Properties of the Streaming Session\<close>

lemma queue_enqueue [simp]: "queue (enqueue e c) = queue c @ [e]"
  by (simp add: enqueue_def)

lemma queue_close [simp]: "queue (close c) = queue c"
  by (simp add: close_def)

lemma type_event [simp]: "type (event t d) = t"
  by (simp add: event_def)

lemma body_events_simps [simp]:
  "body_events []" "body_events (es @ fs) = (body_events es \<and> body_events fs)"
  "body_events (e # es) = (is_body (type e) \<and> body_events es)"
  by (simp_all add: body_events_def)













lemma sample_mock_chunks: "length (split_after_newline [] mockResponse) = 35"
  by code_simp



end
